theory Spec2Isabelle
  imports Complex_Main "HOL-Library.AList" "HOL-Library.Multiset" "HOL-Library.Word"
    "HOL-Library.Signed_Division"
begin

section \<open>Data model (tracker/models.go)\<close>

text \<open>
  Go's \<open>int\<close> is modelled as \<open>int\<close>, with the 64-bit wrap-around written out where
  the code does arithmetic on it; \<open>uint64\<close> is \<open>64 word\<close>. A \<open>time.Time\<close> is the
  number of nanoseconds since the zero instant, a \<open>time.Duration\<close> a number of
  nanoseconds in the \<open>int64\<close> range. A \<open>float64\<close> is the real number it denotes:
  rounding is not modelled, comparisons and the zero value are exact.
\<close>

type_synonym Time = int
type_synonym Duration = int

definition IsZero :: "Time \<Rightarrow> bool" where
  "IsZero t = (t = 0)"

definition maxDuration :: Duration where
  "maxDuration = 2 ^ 63 - 1"

definition minDuration :: Duration where
  "minDuration = - (2 ^ 63)"

definition Sub :: "Time \<Rightarrow> Time \<Rightarrow> Duration" where
  \<comment> \<open>\<open>t.Sub(u)\<close>: the difference, saturated to the range of a Duration\<close>
  "Sub t u =
     (let d = t - u
      in if d > maxDuration then maxDuration
         else if d < minDuration then minDuration
         else d)"

definition Seconds :: "Duration \<Rightarrow> real" where
  "Seconds d = real_of_int d / 1000000000"

definition wrap64 :: "int \<Rightarrow> int" where
  \<comment> \<open>the value of a Go \<open>int\<close> (64 bits, two's complement) after an overflow\<close>
  "wrap64 i = (i + 2 ^ 63) mod 2 ^ 64 - 2 ^ 63"

datatype ConnState =
    StateEstablished | StateListening | StateTimeWait | StateCloseWait
  | StateSynSent | StateSynRecv | StateFinWait1 | StateFinWait2
  | StateLastAck | StateClosing | StateClosed | StateUnknown

datatype Direction = Inbound | Outbound

record Connection =
  PID :: int
  AppName :: string
  Protocol :: string
  Direction :: Direction
  LocalAddr :: string
  LocalPort :: int
  RemoteAddr :: string
  RemotePort :: int
  State :: ConnState
  Ping :: Duration
  Loss :: real
  TxBytes :: "64 word"
  RxBytes :: "64 word"
  TxRate :: real
  RxRate :: real
  ConnAge :: Duration
  FirstSeen :: Time
  LastUpdated :: Time
  PingCount :: int
  PingFailed :: int
  prevTxBytes :: "64 word"
  prevRxBytes :: "64 word"
  prevTime :: Time

function digits :: "int \<Rightarrow> string \<Rightarrow> string" where
  "digits i buf =
     (if i > 0 then digits (i div 10) ((''0123456789'' ! nat (i mod 10)) # buf) else buf)"
  by pat_completeness auto
termination
  by (relation "measure (\<lambda>(i, buf). nat i)") auto

declare digits.simps [simp del]

definition fmt_d :: "int \<Rightarrow> string" where
  \<comment> \<open>the verb \<open>%d\<close> of \<open>fmt.Sprintf\<close>\<close>
  "fmt_d i =
     (if i = 0 then ''0''
      else if i < 0 then CHR ''-'' # digits (- i) []
      else digits i [])"

definition Key :: "Connection \<Rightarrow> string" where
  "Key c =
     fmt_d (PID c) @ '':'' @ Protocol c @ '':'' @ LocalAddr c @ '':'' @ fmt_d (LocalPort c)
       @ ''->'' @ RemoteAddr c @ '':'' @ fmt_d (RemotePort c)"

definition zeroConnection :: Connection where
  \<comment> \<open>the zero value of the struct: what a composite literal leaves in the fields it does not name\<close>
  "zeroConnection =
     \<lparr>PID = 0, AppName = [], Protocol = [], Direction = Inbound,
      LocalAddr = [], LocalPort = 0, RemoteAddr = [], RemotePort = 0,
      State = StateUnknown, Ping = 0, Loss = 0, TxBytes = 0, RxBytes = 0,
      TxRate = 0, RxRate = 0, ConnAge = 0, FirstSeen = 0, LastUpdated = 0,
      PingCount = 0, PingFailed = 0, prevTxBytes = 0, prevRxBytes = 0, prevTime = 0\<rparr>"

text \<open>
  \<open>Direction\<close> and \<open>ConnState\<close> are string types in Go, whose zero value is the empty
  string; no code path reads a zero \<open>Direction\<close> or \<open>State\<close> before a scanner has set
  it, so \<open>zeroConnection\<close> holds placeholders there.
\<close>

datatype error = Err string

section \<open>Discovery (the two scanners)\<close>

record inodeEntry =
  protocol :: string
  localAddr :: string
  localPort :: int
  remoteAddr :: string
  remotePort :: int
  state :: ConnState
  inode :: string
  txQueue :: "64 word"
  rxQueue :: "64 word"

definition mapInt :: "(string \<rightharpoonup> int) \<Rightarrow> string \<Rightarrow> int" where
  \<comment> \<open>reading a Go \<open>map[string]int\<close>: the zero value for a missing key\<close>
  "mapInt m k = (case m k of None \<Rightarrow> 0 | Some v \<Rightarrow> v)"

definition mapString :: "(string \<rightharpoonup> string) \<Rightarrow> string \<Rightarrow> string" where
  "mapString m k = (case m k of None \<Rightarrow> [] | Some v \<Rightarrow> v)"

definition procEntries :: "(string \<Rightarrow> string \<Rightarrow> error + inodeEntry list) \<Rightarrow> string list \<Rightarrow> inodeEntry list" where
  \<comment> \<open>the loops over the protocols: a file that cannot be parsed is skipped\<close>
  "procEntries parseProcNet protos =
     concat (map (\<lambda>proto. case parseProcNet (''/proc/net/'' @ proto) proto of
                            Inl err \<Rightarrow> []
                          | Inr parsed \<Rightarrow> parsed) protos)"

definition ScanConnections ::
  "Time \<Rightarrow> (string \<Rightarrow> string \<Rightarrow> error + inodeEntry list) \<Rightarrow> (string \<rightharpoonup> int) \<Rightarrow> (string \<rightharpoonup> string)
     \<Rightarrow> error + Connection list" where
  \<comment> \<open>the Linux scanner; the contents of /proc are its parameters\<close>
  "ScanConnections now parseProcNet inodePID inodeName =
     (let entries = procEntries parseProcNet [''tcp'', ''tcp6''] @ procEntries parseProcNet [''udp'', ''udp6''];
          conns = map (\<lambda>e.
            let pid = mapInt inodePID (inode e);
                name = mapString inodeName (inode e);
                name = (if name = [] then ''unknown'' else name);
                dir = (if state e = StateListening \<or> remoteAddr e = ''0.0.0.0'' \<or> remoteAddr e = ''::''
                       then Inbound else Outbound)
            in zeroConnection
                 \<lparr>PID := pid, AppName := name, Protocol := protocol e, Direction := dir,
                  LocalAddr := localAddr e, LocalPort := localPort e,
                  RemoteAddr := remoteAddr e, RemotePort := remotePort e,
                  State := state e, TxBytes := txQueue e, RxBytes := rxQueue e,
                  FirstSeen := now, LastUpdated := now\<rparr>) entries
      in Inr conns)"

record connEntry =
  protocol :: string
  localAddr :: string
  localPort :: int
  remoteAddr :: string
  remotePort :: int
  state :: ConnState
  pid :: int

definition toConnection :: "(int \<Rightarrow> string) \<Rightarrow> connEntry \<Rightarrow> Time \<Rightarrow> Connection" where
  "toConnection getProcessName e now =
     (let name = getProcessName (pid e);
          name = (if name = [] then ''unknown'' else name);
          dir = (if connEntry.state e = StateListening \<or> connEntry.remoteAddr e = ''0.0.0.0''
                    \<or> connEntry.remoteAddr e = ''::''
                 then Inbound else Outbound)
      in zeroConnection
           \<lparr>PID := pid e, AppName := name, Protocol := connEntry.protocol e, Direction := dir,
            LocalAddr := connEntry.localAddr e, LocalPort := connEntry.localPort e,
            RemoteAddr := connEntry.remoteAddr e, RemotePort := connEntry.remotePort e,
            State := connEntry.state e, FirstSeen := now, LastUpdated := now\<rparr>)"

definition tableConns :: "(int \<Rightarrow> string) \<Rightarrow> Time \<Rightarrow> error + connEntry list \<Rightarrow> Connection list" where
  \<comment> \<open>one \<open>if entries, err := getXTable(); err == nil { ... }\<close> block\<close>
  "tableConns getProcessName now table =
     (case table of
        Inl err \<Rightarrow> []
      | Inr entries \<Rightarrow> map (\<lambda>e. toConnection getProcessName e now) entries)"

definition ScanConnections_windows ::
  "Time \<Rightarrow> (int \<Rightarrow> string) \<Rightarrow> error + connEntry list \<Rightarrow> error + connEntry list
     \<Rightarrow> error + connEntry list \<Rightarrow> error + connEntry list \<Rightarrow> error + Connection list" where
  \<comment> \<open>the Windows scanner; the four system tables are its parameters\<close>
  "ScanConnections_windows now getProcessName getTCPTable getTCP6Table getUDPTable getUDP6Table =
     Inr (tableConns getProcessName now getTCPTable @ tableConns getProcessName now getTCP6Table
          @ tableConns getProcessName now getUDPTable @ tableConns getProcessName now getUDP6Table)"

section \<open>The latency prober (tracker/ping.go)\<close>

definition pingCount :: nat where
  "pingCount = 3"

definition intToStr :: "int \<Rightarrow> string" where
  "intToStr i =
     (if i = 0 then ''0''
      else let neg = i < 0;
               i = (if neg then wrap64 (- i) else i);
               buf = digits i []
           in if neg then CHR ''-'' # buf else buf)"

definition JoinHostPort :: "string \<Rightarrow> string \<Rightarrow> string" where
  \<comment> \<open>\<open>net.JoinHostPort\<close>: a host with a colon is put in brackets\<close>
  "JoinHostPort host port =
     (if CHR '':'' \<in> set host then ''['' @ host @ '']:'' @ port else host @ '':'' @ port)"

definition itoa :: "int \<Rightarrow> string" where
  "itoa i = take 0 (JoinHostPort [] []) @ intToStr i"

text \<open>
  The network is a parameter: \<open>dial target i\<close> is the outcome of the \<open>i\<close>-th
  \<open>net.DialTimeout\<close> to \<open>target\<close>, the elapsed time when the connection was
  established and an error otherwise. \<open>MeasurePing\<close> returns the average round-trip
  time, the loss percentage, and the targets it dialled, in order.
\<close>

type_synonym dialer = "string \<Rightarrow> nat \<Rightarrow> error + Duration"

definition MeasurePing :: "string \<Rightarrow> int \<Rightarrow> dialer \<Rightarrow> Duration \<times> real \<times> string list" where
  "MeasurePing addr port dial =
     (if addr = ''0.0.0.0'' \<or> addr = ''::'' \<or> addr = ''127.0.0.1'' \<or> addr = ''::1''
      then (0, 0, [])
      else
        let target = JoinHostPort addr (itoa port);
            (totalRTT, successful) =
               fold (\<lambda>i (totalRTT, successful).
                       case dial target i of
                         Inr elapsed \<Rightarrow> (wrap64 (totalRTT + elapsed), successful + 1)
                       | Inl err \<Rightarrow> (totalRTT, successful))
                    [0..<pingCount] (0, 0 :: int);
            dialled = replicate pingCount target
        in if successful = 0 then (0, 100, dialled)
           else (totalRTT sdiv successful,
                 real_of_int (int pingCount - successful) / real pingCount * 100,
                 dialled))"

section \<open>The tracking engine (tracker/tracker.go)\<close>

text \<open>
  The engine's map holds pointers to records, and \<open>Snapshot\<close> and \<open>Search\<close> hand
  out pointers to copies, so the records live in an explicit store: a heap is the
  list of the records allocated so far and an address is an index into it. The Go
  map \<open>connections\<close> is an association list from keys to addresses; Go leaves the
  order of iteration over a map open, the model iterates in the order of the list.
  The lock \<open>mu\<close> and the channel \<open>stopCh\<close> carry no data and are left out.
\<close>

type_synonym addr = nat
type_synonym heap = "Connection list"

record Tracker =
  connections :: "(string \<times> addr) list"
  interval :: Duration
  pingEnabled :: bool

definition NewTracker :: "Duration \<Rightarrow> bool \<Rightarrow> Tracker" where
  "NewTracker ivl ping =
     \<lparr>connections = [], interval = ivl, pingEnabled = ping\<rparr>"

definition updateExisting :: "Time \<Rightarrow> Connection \<Rightarrow> Connection \<Rightarrow> Connection" where
  \<comment> \<open>the branch \<open>if ok\<close> of the loop of \<open>scan\<close>, on the record \<open>existing\<close> points to\<close>
  "updateExisting now sc existing =
     (let existing = existing\<lparr>State := State sc, LastUpdated := now,
                               ConnAge := Sub now (FirstSeen existing)\<rparr>;
          existing =
            (if \<not> IsZero (prevTime existing) then
               let dt = Seconds (Sub now (prevTime existing))
               in if dt > 0 then
                    let existing =
                          (if TxBytes sc \<ge> prevTxBytes existing
                           then existing\<lparr>TxRate := real (unat (TxBytes sc - prevTxBytes existing)) / dt\<rparr>
                           else existing);
                        existing =
                          (if RxBytes sc \<ge> prevRxBytes existing
                           then existing\<lparr>RxRate := real (unat (RxBytes sc - prevRxBytes existing)) / dt\<rparr>
                           else existing)
                    in existing
                  else existing
             else existing);
          existing = existing\<lparr>prevTxBytes := TxBytes existing\<rparr>;
          existing = existing\<lparr>prevRxBytes := RxBytes existing\<rparr>;
          existing = existing\<lparr>prevTime := now\<rparr>;
          existing = existing\<lparr>TxBytes := TxBytes sc\<rparr>;
          existing = existing\<lparr>RxBytes := RxBytes sc\<rparr>
      in existing)"

definition newConnection :: "Time \<Rightarrow> Connection \<Rightarrow> Connection" where
  \<comment> \<open>the branch \<open>else\<close>: the scanned record as it is stored in the map\<close>
  "newConnection now sc =
     (let sc = sc\<lparr>FirstSeen := now, LastUpdated := now, prevTime := now\<rparr>;
          sc = sc\<lparr>prevTxBytes := TxBytes sc\<rparr>;
          sc = sc\<lparr>prevRxBytes := RxBytes sc\<rparr>
      in sc)"

text \<open>
  The scanner hands over freshly allocated records that nothing else points to. The
  model passes them by value and gives a record its address when \<open>scan\<close> stores it
  in the map.
\<close>

fun scanLoop :: "Time \<Rightarrow> Connection list \<Rightarrow> (string \<times> addr) list \<times> heap \<times> string set
    \<Rightarrow> (string \<times> addr) list \<times> heap \<times> string set" where
  "scanLoop now [] s = s"
| "scanLoop now (sc # scanned) (conns, h, alive) =
     (let key = Key sc;
          alive = insert key alive
      in case map_of conns key of
           Some existing \<Rightarrow>
             scanLoop now scanned (conns, h[existing := updateExisting now sc (h ! existing)], alive)
         | None \<Rightarrow>
             scanLoop now scanned
               (AList.update key (length h) conns, h @ [newConnection now sc], alive))"

definition removeStale :: "string set \<Rightarrow> (string \<times> addr) list \<Rightarrow> (string \<times> addr) list" where
  "removeStale alive conns = filter (\<lambda>(key, c). key \<in> alive) conns"

definition reconcile :: "Time \<Rightarrow> Connection list \<Rightarrow> Tracker \<Rightarrow> heap \<Rightarrow> Tracker \<times> heap" where
  \<comment> \<open>the part of \<open>scan\<close> between \<open>t.mu.Lock()\<close> and \<open>t.mu.Unlock()\<close>\<close>
  "reconcile now scanned t h =
     (case scanLoop now scanned (connections t, h, {}) of
        (conns, h', alive) \<Rightarrow> (t\<lparr>connections := removeStale alive conns\<rparr>, h'))"

definition writeBack :: "Duration \<Rightarrow> real \<Rightarrow> Connection \<Rightarrow> Connection" where
  \<comment> \<open>the critical section of a probe goroutine\<close>
  "writeBack rtt loss conn =
     (let conn = conn\<lparr>Ping := rtt\<rparr>;
          conn = conn\<lparr>PingCount := wrap64 (PingCount conn + 1)\<rparr>;
          conn = conn\<lparr>Loss := loss\<rparr>
      in if loss \<ge> 100 then conn\<lparr>PingFailed := wrap64 (PingFailed conn + 1)\<rparr> else conn)"

definition eligible :: "Connection \<Rightarrow> bool" where
  "eligible c = (State c = StateEstablished \<and> RemoteAddr c \<noteq> ''0.0.0.0'' \<and> RemoteAddr c \<noteq> ''::'')"

definition probe :: "(addr \<Rightarrow> dialer) \<Rightarrow> heap \<Rightarrow> addr \<Rightarrow> heap" where
  \<comment> \<open>one probe goroutine: measure, then write back under the lock\<close>
  "probe net h conn =
     (case MeasurePing (RemoteAddr (h ! conn)) (RemotePort (h ! conn)) (net conn) of
        (rtt, loss, dialled) \<Rightarrow> h[conn := writeBack rtt loss (h ! conn)])"

text \<open>
  The probes of a pass run concurrently, at most 20 at a time. Each writes back in one
  critical section and only to its own record, so the store after the pass does not
  depend on their interleaving; the model runs them in the order of dispatch. \<open>net conn\<close>
  is the network as the probe of the record at \<open>conn\<close> finds it.
\<close>

definition pingAll :: "(addr \<Rightarrow> dialer) \<Rightarrow> Tracker \<Rightarrow> heap \<Rightarrow> heap" where
  "pingAll net t h =
     (let targets = filter (\<lambda>c. eligible (h ! c)) (map snd (connections t))
      in fold (\<lambda>c h. probe net h c) targets h)"

definition scan :: "Time \<Rightarrow> error + Connection list \<Rightarrow> (addr \<Rightarrow> dialer) \<Rightarrow> Tracker \<Rightarrow> heap \<Rightarrow> Tracker \<times> heap" where
  \<comment> \<open>\<open>scanned\<close> is what \<open>ScanConnections()\<close> returned, \<open>now\<close> the time read after it\<close>
  "scan now scanned net t h =
     (case scanned of
        Inl err \<Rightarrow> (t, h)
      | Inr scanned \<Rightarrow>
          (case reconcile now scanned t h of
             (t', h') \<Rightarrow> if pingEnabled t' then (t', pingAll net t' h') else (t', h')))"

subsection \<open>Reading the live set\<close>

text \<open>
  \<open>Snapshot\<close> and \<open>Search\<close> return a slice of pointers to copies they allocate; the
  model returns the new addresses and the store that holds the copies. The fields
  of a \<open>Connection\<close> are numbers, strings and times, none of which Go code can change
  in place, so the copy \<open>cp := *c\<close> shares nothing mutable with \<open>*c\<close>.
\<close>

definition copyTo :: "addr list \<times> heap \<Rightarrow> addr \<Rightarrow> addr list \<times> heap" where
  \<comment> \<open>\<open>cp := *c; result = append(result, &cp)\<close>: the copy gets a new address\<close>
  "copyTo rh c = (case rh of (result, h) \<Rightarrow> (result @ [length h], h @ [h ! c]))"

definition Snapshot :: "Tracker \<Rightarrow> heap \<Rightarrow> addr list \<times> heap" where
  "Snapshot t h = foldl copyTo ([], h) (map snd (connections t))"



fun hasPrefix :: "string \<Rightarrow> string \<Rightarrow> bool" where
  "hasPrefix s [] = True"
| "hasPrefix [] (c # prefix) = False"
| "hasPrefix (d # s) (c # prefix) = (d = c \<and> hasPrefix s prefix)"





definition records :: "addr list \<times> heap \<Rightarrow> Connection list" where
  \<comment> \<open>the records a returned slice of pointers points to\<close>
  "records rh = (case rh of (result, h) \<Rightarrow> map (\<lambda>c. h ! c) result)"

section \<open>The scan cycles of a run\<close>

text \<open>
  \<open>Start\<close> scans once and then once per tick of the timer, in one goroutine, until
  \<open>Stop\<close>. A cycle of the model is what one call of \<open>scan\<close> meets: the time, the
  system tables the platform's scanner reads, and the network.
\<close>

datatype discovery =
    Linux Time "string \<Rightarrow> string \<Rightarrow> error + inodeEntry list" "string \<rightharpoonup> int" "string \<rightharpoonup> string"
  | Windows Time "int \<Rightarrow> string" "error + connEntry list" "error + connEntry list"
      "error + connEntry list" "error + connEntry list"

fun discover :: "discovery \<Rightarrow> error + Connection list" where
  "discover (Linux now parseProcNet inodePID inodeName) =
     ScanConnections now parseProcNet inodePID inodeName"
| "discover (Windows now getProcessName getTCPTable getTCP6Table getUDPTable getUDP6Table) =
     ScanConnections_windows now getProcessName getTCPTable getTCP6Table getUDPTable getUDP6Table"

type_synonym cycle = "Time \<times> discovery \<times> (addr \<Rightarrow> dialer)"

definition scanCycle :: "cycle \<Rightarrow> Tracker \<times> heap \<Rightarrow> Tracker \<times> heap" where
  "scanCycle cy s =
     (case cy of (now, world, net) \<Rightarrow> case s of (t, h) \<Rightarrow> scan now (discover world) net t h)"

definition Start :: "cycle \<Rightarrow> cycle list \<Rightarrow> Tracker \<Rightarrow> heap \<Rightarrow> Tracker \<times> heap" where
  "Start first ticks t h = fold scanCycle ticks (scanCycle first (t, h))"

section \<open>The vocabulary of the properties\<close>

text \<open>
  The specification speaks of unspecified and loopback addresses. In the canonical
  textual form the scanners produce, the unspecified addresses are \<open>0.0.0.0\<close> and
  \<open>::\<close>, and the loopback addresses are the IPv4 block \<open>127.0.0.0/8\<close> and \<open>::1\<close>.
\<close>

definition spec_unspecified :: "string \<Rightarrow> bool" where
  "spec_unspecified a = (a = ''0.0.0.0'' \<or> a = ''::'')"

definition spec_loopback :: "string \<Rightarrow> bool" where
  "spec_loopback a = (a = ''::1'' \<or> hasPrefix a ''127.'')"

definition spec_firstObservation :: "Time \<Rightarrow> Connection \<Rightarrow> Connection \<Rightarrow> bool" where
  \<comment> \<open>what the specification says of the record \<open>c\<close> stored for the new record \<open>sc\<close>\<close>
  "spec_firstObservation now sc c =
     (FirstSeen c = now \<and> LastUpdated c = now
      \<and> prevTxBytes c = TxBytes sc \<and> prevRxBytes c = RxBytes sc
      \<and> TxBytes c = TxBytes sc \<and> RxBytes c = RxBytes sc
      \<and> TxRate c = 0 \<and> RxRate c = 0)"

text \<open>
  A Go pointer is never dangling, a Go map has one value per key, and every record of
  the engine's map was allocated for one key: the addresses in the map are addresses
  of the store, and no key or address occurs twice. \<open>Start_wellFormed\<close> below shows
  that every state the engine reaches is of this kind.
\<close>

definition wellFormed :: "(string \<times> addr) list \<Rightarrow> heap \<Rightarrow> bool" where
  "wellFormed conns h =
     (distinct (map fst conns) \<and> distinct (map snd conns) \<and> (\<forall>c \<in> snd ` set conns. c < length h))"

definition withoutProbe :: "Connection \<Rightarrow> Connection" where
  \<comment> \<open>a record with the four fields a probe writes cleared\<close>
  "withoutProbe c = c\<lparr>Ping := 0, PingCount := 0, Loss := 0, PingFailed := 0\<rparr>"

definition counted :: "int \<Rightarrow> Connection \<Rightarrow> bool" where
  \<comment> \<open>at most \<open>n\<close> probes were written back, and no more failed than were made\<close>
  "counted n c = (0 \<le> PingFailed c \<and> PingFailed c \<le> PingCount c \<and> PingCount c \<le> n)"

subsection \<open>A sample host\<close>

definition refusing :: dialer where
  \<comment> \<open>a network on which every connection attempt fails\<close>
  "refusing target i = Inl (Err ''connection refused'')"

definition accepting :: dialer where
  \<comment> \<open>a network on which every connection attempt succeeds after 20 ms\<close>
  "accepting target i = Inr 20000000"

text \<open>
  The sample host has two sockets in \<open>/proc/net/tcp\<close>, inode 777 of Chrome (process
  4242) and inode 778 of sshd (process 911), and no other file of \<open>/proc/net\<close>.
\<close>

definition demoEntry :: "string \<Rightarrow> int \<Rightarrow> 64 word \<Rightarrow> 64 word \<Rightarrow> inodeEntry" where
  "demoEntry ino port tx rx =
     \<lparr>inodeEntry.protocol = ''tcp'', inodeEntry.localAddr = ''10.0.0.5'',
      inodeEntry.localPort = port, inodeEntry.remoteAddr = ''93.184.216.34'',
      inodeEntry.remotePort = 443, inodeEntry.state = StateEstablished,
      inode = ino, txQueue = tx, rxQueue = rx\<rparr>"

definition demoProc :: "inodeEntry list \<Rightarrow> string \<Rightarrow> string \<Rightarrow> error + inodeEntry list" where
  "demoProc entries path proto =
     (if proto = ''tcp'' then Inr entries else Inl (Err ''no such file''))"

definition demoWorld :: "int \<Rightarrow> inodeEntry list \<Rightarrow> discovery" where
  "demoWorld s entries =
     Linux (s * 1000000000) (demoProc entries)
       [''777'' \<mapsto> 4242, ''778'' \<mapsto> 911] [''777'' \<mapsto> ''Chrome'', ''778'' \<mapsto> ''sshd'']"

definition demoCycle :: "int \<Rightarrow> inodeEntry list \<Rightarrow> dialer \<Rightarrow> cycle" where
  "demoCycle s entries dial = (s * 1000000000, demoWorld s entries, \<lambda>c. dial)"

definition demoTracker :: "bool \<Rightarrow> Tracker" where
  "demoTracker ping = NewTracker 3000000000 ping"

definition demoState :: "Tracker \<times> heap" where
  \<comment> \<open>the engine after a first scan that finds a connection of Chrome and one of sshd\<close>
  "demoState =
     Start (demoCycle 1 [demoEntry ''777'' 40000 1000 64, demoEntry ''778'' 22 0 0] refusing) []
       (demoTracker False) []"

definition demoState2 :: "Tracker \<times> heap" where
  \<comment> \<open>the engine after a second scan, one second later, with larger counters for Chrome\<close>
  "demoState2 =
     Start (demoCycle 1 [demoEntry ''777'' 40000 1000 64, demoEntry ''778'' 22 0 0] refusing)
       [demoCycle 2 [demoEntry ''777'' 40000 1500 100, demoEntry ''778'' 22 0 0] refusing]
       (demoTracker False) []"

definition demoProbed :: "Tracker \<times> heap" where
  \<comment> \<open>two scan cycles with probing: the peer accepts in the first and refuses in the second\<close>
  "demoProbed =
     Start (demoCycle 1 [demoEntry ''777'' 40000 1000 64] accepting)
       [demoCycle 2 [demoEntry ''777'' 40000 1500 100] refusing]
       (demoTracker True) []"

section \<open>The loop of a scan cycle\<close>

lemma scanLoop_append:
  "scanLoop now (xs @ ys) s = scanLoop now ys (scanLoop now xs s)"
proof (induction xs arbitrary: s)
  case Nil
  show ?case by simp
next
  case (Cons sc xs)
  obtain conns h alive where s: "s = (conns, h, alive)" by (cases s)
  show ?case unfolding s by (simp add: Let_def Cons.IH split: option.split)
qed

lemma scanLoop_alive:
  "scanLoop now scanned (conns, h, alive) = (conns', h', alive') \<Longrightarrow> alive' = alive \<union> Key ` set scanned"
  by (induction scanned arbitrary: conns h alive) (auto simp: Let_def split: option.splits)

lemma scanLoop_keys:
  "scanLoop now scanned (conns, h, alive) = (conns', h', alive')
   \<Longrightarrow> fst ` set conns' = fst ` set conns \<union> Key ` set scanned"
proof (induction scanned arbitrary: conns h alive)
  case Nil
  then show ?case by simp
next
  case (Cons sc scanned)
  show ?case
  proof (cases "map_of conns (Key sc)")
    case None
    with Cons.prems have "scanLoop now scanned (AList.update (Key sc) (length h) conns, h @ [newConnection now sc], insert (Key sc) alive) = (conns', h', alive')"
      by (simp add: Let_def)
    from Cons.IH [OF this] show ?thesis by (auto simp: dom_update)
  next
    case (Some p)
    with Cons.prems have "scanLoop now scanned (conns, h[p := updateExisting now sc (h ! p)], insert (Key sc) alive) = (conns', h', alive')"
      by (simp add: Let_def)
    from Cons.IH [OF this] have "fst ` set conns' = fst ` set conns \<union> Key ` set scanned" .
    moreover from Some have "Key sc \<in> fst ` set conns"
      by (meson domI dom_map_of_conv_image_fst [THEN equalityD1, THEN subsetD] map_of_eq_None_iff option.distinct(1))
    ultimately show ?thesis by auto
  qed
qed

lemma removeStale_lookup:
  "k \<in> alive \<Longrightarrow> map_of (removeStale alive conns) k = map_of conns k"
  by (induction conns) (auto simp: removeStale_def)

lemma removeStale_keys:
  "fst ` set (removeStale alive conns) = fst ` set conns \<inter> alive"
  by (auto simp: removeStale_def image_iff)

subsection \<open>Addresses stay valid and apart\<close>

lemma wellFormed_update:
  "wellFormed conns h \<Longrightarrow> c < length h \<Longrightarrow> wellFormed conns (h[c := x])"
  by (simp add: wellFormed_def)

lemma wellFormed_insert:
  assumes "wellFormed conns h" and "map_of conns key = None"
  shows "wellFormed (AList.update key (length h) conns) (h @ [x])"
proof -
  from assms(2) have notin: "key \<notin> fst ` set conns" by (simp add: map_of_eq_None_iff)
  have upd: "AList.update key (length h) conns = conns @ [(key, length h)]"
    using notin by (induction conns) auto
  from assms(1) have "length h \<notin> snd ` set conns" by (auto simp: wellFormed_def)
  with assms(1) notin show ?thesis unfolding upd
    by (auto simp: wellFormed_def less_Suc_eq)
qed

lemma wellFormed_removeStale:
  "wellFormed conns h \<Longrightarrow> wellFormed (removeStale alive conns) h"
  by (auto simp: wellFormed_def removeStale_def distinct_map_filter)

lemma wellFormed_grow: "wellFormed conns h \<Longrightarrow> wellFormed conns (h @ ys)"
  by (auto simp: wellFormed_def)

lemma scanLoop_wellFormed:
  "wellFormed conns h \<Longrightarrow> scanLoop now scanned (conns, h, alive) = (conns', h', alive')
   \<Longrightarrow> wellFormed conns' h' \<and> length h \<le> length h'"
proof (induction scanned arbitrary: conns h alive)
  case Nil
  then show ?case by simp
next
  case (Cons sc scanned)
  show ?case
  proof (cases "map_of conns (Key sc)")
    case None
    with Cons.prems have run: "scanLoop now scanned (AList.update (Key sc) (length h) conns, h @ [newConnection now sc], insert (Key sc) alive) = (conns', h', alive')"
      by (simp add: Let_def)
    from Cons.IH [OF wellFormed_insert [OF Cons.prems(1) None] run] show ?thesis by simp
  next
    case (Some p)
    with Cons.prems have run: "scanLoop now scanned (conns, h[p := updateExisting now sc (h ! p)], insert (Key sc) alive) = (conns', h', alive')"
      by (simp add: Let_def)
    from Some have "p \<in> snd ` set conns" by (force dest: map_of_SomeD)
    with Cons.prems(1) have "p < length h" by (auto simp: wellFormed_def)
    from Cons.IH [OF wellFormed_update [OF Cons.prems(1) this] run] show ?thesis by simp
  qed
qed

lemma lookup_addr_valid:
  "wellFormed conns h \<Longrightarrow> map_of conns k = Some c \<Longrightarrow> c < length h"
  by (auto simp: wellFormed_def dest: map_of_SomeD)

lemma lookup_addr_inj:
  assumes "wellFormed conns h" and "map_of conns k = Some c" and "map_of conns k' = Some c"
  shows "k = k'"
proof -
  from assms(2,3) have "(k, c) \<in> set conns" and "(k', c) \<in> set conns"
    by (auto dest: map_of_SomeD)
  moreover from assms(1) have "inj_on snd (set conns)"
    by (simp add: wellFormed_def distinct_map)
  ultimately have "(k, c) = (k', c)" by (auto dest!: inj_onD [where x = "(k, c)" and y = "(k', c)"])
  then show ?thesis by simp
qed

lemma scanLoop_lookup:
  "map_of conns k = Some c \<Longrightarrow> scanLoop now scanned (conns, h, alive) = (conns', h', alive')
   \<Longrightarrow> map_of conns' k = Some c"
proof (induction scanned arbitrary: conns h alive)
  case Nil
  then show ?case by simp
next
  case (Cons sc scanned)
  show ?case
  proof (cases "map_of conns (Key sc)")
    case None
    with Cons.prems have run: "scanLoop now scanned (AList.update (Key sc) (length h) conns, h @ [newConnection now sc], insert (Key sc) alive) = (conns', h', alive')"
      by (simp add: Let_def)
    from None Cons.prems(1) have "map_of (AList.update (Key sc) (length h) conns) k = Some c"
      by (auto simp: update_conv')
    from Cons.IH [OF this run] show ?thesis .
  next
    case (Some p)
    with Cons.prems have run: "scanLoop now scanned (conns, h[p := updateExisting now sc (h ! p)], insert (Key sc) alive) = (conns', h', alive')"
      by (simp add: Let_def)
    from Cons.IH [OF Cons.prems(1) run] show ?thesis .
  qed
qed

text \<open>A record whose key the scan does not meet is not touched.\<close>

lemma scanLoop_frame:
  "wellFormed conns h \<Longrightarrow> map_of conns k = Some c \<Longrightarrow> k \<notin> Key ` set scanned
   \<Longrightarrow> scanLoop now scanned (conns, h, alive) = (conns', h', alive')
   \<Longrightarrow> h' ! c = h ! c"
proof (induction scanned arbitrary: conns h alive)
  case Nil
  then show ?case by simp
next
  case (Cons sc scanned)
  from Cons.prems(3) have ne: "Key sc \<noteq> k" and rest: "k \<notin> Key ` set scanned" by auto
  have c: "c < length h" using Cons.prems(1,2) by (rule lookup_addr_valid)
  show ?case
  proof (cases "map_of conns (Key sc)")
    case None
    with Cons.prems have run: "scanLoop now scanned (AList.update (Key sc) (length h) conns, h @ [newConnection now sc], insert (Key sc) alive) = (conns', h', alive')"
      by (simp add: Let_def)
    from ne Cons.prems(2) have "map_of (AList.update (Key sc) (length h) conns) k = Some c"
      by (auto simp: update_conv')
    from Cons.IH [OF wellFormed_insert [OF Cons.prems(1) None] this rest run]
    show ?thesis using c by (simp add: nth_append)
  next
    case (Some p)
    with Cons.prems have run: "scanLoop now scanned (conns, h[p := updateExisting now sc (h ! p)], insert (Key sc) alive) = (conns', h', alive')"
      by (simp add: Let_def)
    have p: "p < length h" using Cons.prems(1) Some by (rule lookup_addr_valid)
    have "p \<noteq> c" using lookup_addr_inj [OF Cons.prems(1) Some] Cons.prems(2) ne by auto
    with Cons.IH [OF wellFormed_update [OF Cons.prems(1) p] Cons.prems(2) rest run]
    show ?thesis by simp
  qed
qed

subsection \<open>What a probe pass changes\<close>

lemma length_probe: "length (probe net h c) = length h"
  by (simp add: probe_def split: prod.split)

lemma probe_nth:
  "c < length h \<Longrightarrow> \<exists>rtt loss. probe net h c ! i = (if i = c then writeBack rtt loss (h ! c) else h ! i)"
  by (auto simp: probe_def split: prod.split)

lemma probe_withoutProbe:
  "withoutProbe (probe net h c ! p) = withoutProbe (h ! p)"
proof (cases "c = p \<and> c < length h")
  case True
  then show ?thesis
    by (simp add: probe_def withoutProbe_def writeBack_def Let_def split: prod.split)
next
  case False
  then have "probe net h c ! p = h ! p"
    by (cases "c = p") (auto simp: probe_def list_update_beyond split: prod.split)
  then show ?thesis by simp
qed

lemma probes_withoutProbe:
  "withoutProbe (fold (\<lambda>c h. probe net h c) targets h ! p) = withoutProbe (h ! p)"
  by (induction targets arbitrary: h) (simp_all add: probe_withoutProbe)

lemma pingAll_withoutProbe:
  "withoutProbe (pingAll net t h ! p) = withoutProbe (h ! p)"
  by (simp add: pingAll_def Let_def probes_withoutProbe)

lemma length_pingAll: "length (pingAll net t h) = length h"
proof -
  have "length (fold (\<lambda>c h. probe net h c) targets h) = length h" for targets
    by (induction targets arbitrary: h) (simp_all add: length_probe)
  then show ?thesis by (simp add: pingAll_def Let_def)
qed

lemma scan_withoutProbe:
  assumes "scan now (Inr scanned) net t h = (t', h')"
  shows "t' = fst (reconcile now scanned t h)"
    and "withoutProbe (h' ! p) = withoutProbe (snd (reconcile now scanned t h) ! p)"
  using assms
  by (auto simp: scan_def pingAll_withoutProbe split: prod.splits if_splits)

lemma withoutProbe_fields:
  assumes "withoutProbe a = withoutProbe b"
  shows "TxRate a = TxRate b" and "RxRate a = RxRate b" and "TxBytes a = TxBytes b"
    and "RxBytes a = RxBytes b" and "prevTxBytes a = prevTxBytes b"
    and "prevRxBytes a = prevRxBytes b" and "prevTime a = prevTime b"
    and "FirstSeen a = FirstSeen b" and "LastUpdated a = LastUpdated b"
proof -
  have "TxRate a = TxRate (withoutProbe a)" "RxRate a = RxRate (withoutProbe a)"
    "TxBytes a = TxBytes (withoutProbe a)" "RxBytes a = RxBytes (withoutProbe a)"
    "prevTxBytes a = prevTxBytes (withoutProbe a)" "prevRxBytes a = prevRxBytes (withoutProbe a)"
    "prevTime a = prevTime (withoutProbe a)" "FirstSeen a = FirstSeen (withoutProbe a)"
    "LastUpdated a = LastUpdated (withoutProbe a)"
    by (simp_all add: withoutProbe_def)
  then show "TxRate a = TxRate b" and "RxRate a = RxRate b" and "TxBytes a = TxBytes b"
    and "RxBytes a = RxBytes b" and "prevTxBytes a = prevTxBytes b"
    and "prevRxBytes a = prevRxBytes b" and "prevTime a = prevTime b"
    and "FirstSeen a = FirstSeen b" and "LastUpdated a = LastUpdated b"
    unfolding assms by (simp_all add: withoutProbe_def)
qed

subsection \<open>Every state of a run is well formed\<close>

lemma scan_wellFormed:
  assumes wf: "wellFormed (connections t) h" and run: "scan now scanned net t h = (t', h')"
  shows "wellFormed (connections t') h'"
proof (cases scanned)
  case (Inl err)
  with run wf show ?thesis by (simp add: scan_def)
next
  case (Inr found)
  obtain conns1 h1 alive1 where loop: "scanLoop now found (connections t, h, {}) = (conns1, h1, alive1)"
    by (cases "scanLoop now found (connections t, h, {})")
  from scanLoop_wellFormed [OF wf loop] have wf1: "wellFormed (removeStale alive1 conns1) h1"
    by (simp add: wellFormed_removeStale)
  from run Inr loop have "connections t' = removeStale alive1 conns1" and "length h' = length h1"
    by (auto simp: scan_def reconcile_def length_pingAll split: if_splits)
  with wf1 show ?thesis by (simp add: wellFormed_def)
qed

lemma Start_wellFormed:
  assumes "Start first ticks (NewTracker ivl ping) [] = (t, h)"
  shows "wellFormed (connections t) h"
proof -
  have step: "wellFormed (connections (fst (scanCycle cy s))) (snd (scanCycle cy s))"
    if "wellFormed (connections (fst s)) (snd s)" for cy s
  proof -
    obtain now world net where cy: "cy = (now, world, net)" by (cases cy)
    have "scan now (discover world) net (fst s) (snd s) = (fst (scanCycle cy s), snd (scanCycle cy s))"
      by (simp add: scanCycle_def cy case_prod_beta)
    with that show ?thesis by (rule scan_wellFormed)
  qed
  have run: "wellFormed (connections (fst (fold scanCycle cys s))) (snd (fold scanCycle cys s))"
    if "wellFormed (connections (fst s)) (snd s)" for cys s
    using that by (induction cys arbitrary: s) (simp_all add: step)
  have "wellFormed (connections (fst (NewTracker ivl ping, []))) (snd (NewTracker ivl ping, ([] :: heap)))"
    by (simp add: wellFormed_def NewTracker_def)
  from run [OF step [OF this], of ticks first] assms show ?thesis by (simp add: Start_def)
qed

subsection \<open>What the scanners hand over\<close>

lemma ScanConnections_fresh:
  assumes "ScanConnections snow parseProcNet inodePID inodeName = Inr scanned" and "sc \<in> set scanned"
  shows "TxRate sc = 0 \<and> RxRate sc = 0 \<and> PingCount sc = 0 \<and> PingFailed sc = 0"
  using assms by (auto simp: ScanConnections_def Let_def zeroConnection_def)

lemma toConnection_fresh:
  "TxRate (toConnection getProcessName e snow) = 0 \<and> RxRate (toConnection getProcessName e snow) = 0
   \<and> PingCount (toConnection getProcessName e snow) = 0
   \<and> PingFailed (toConnection getProcessName e snow) = 0"
  by (simp add: toConnection_def Let_def zeroConnection_def)

lemma tableConns_fresh:
  "sc \<in> set (tableConns getProcessName snow table)
   \<Longrightarrow> TxRate sc = 0 \<and> RxRate sc = 0 \<and> PingCount sc = 0 \<and> PingFailed sc = 0"
  by (auto simp: tableConns_def toConnection_fresh split: sum.splits)

lemma ScanConnections_windows_fresh:
  assumes "ScanConnections_windows snow getProcessName tcp tcp6 udp udp6 = Inr scanned"
    and "sc \<in> set scanned"
  shows "TxRate sc = 0 \<and> RxRate sc = 0 \<and> PingCount sc = 0 \<and> PingFailed sc = 0"
  using assms by (auto simp: ScanConnections_windows_def dest: tableConns_fresh)

lemma discover_fresh:
  assumes "discover world = Inr scanned" and "sc \<in> set scanned"
  shows "TxRate sc = 0 \<and> RxRate sc = 0 \<and> PingCount sc = 0 \<and> PingFailed sc = 0"
  using assms ScanConnections_fresh ScanConnections_windows_fresh
  by (cases world) auto

subsection \<open>Evaluating the sample host\<close>

lemmas demo_defs = demoCycle_def demoWorld_def demoProc_def demoEntry_def demoTracker_def
  NewTracker_def Start_def scanCycle_def scan_def reconcile_def removeStale_def
  ScanConnections_def procEntries_def mapInt_def mapString_def zeroConnection_def Key_def
  fmt_d_def digits.simps newConnection_def updateExisting_def Let_def IsZero_def Sub_def
  Seconds_def maxDuration_def minDuration_def

lemma demoState_eq:
  "demoState =
     (\<lparr>connections = [(''4242:tcp:10.0.0.5:40000->93.184.216.34:443'', 0),
                      (''911:tcp:10.0.0.5:22->93.184.216.34:443'', 1)],
       interval = 3000000000, pingEnabled = False\<rparr>,
      [zeroConnection\<lparr>PID := 4242, AppName := ''Chrome'', Protocol := ''tcp'',
         Direction := Outbound, LocalAddr := ''10.0.0.5'', LocalPort := 40000,
         RemoteAddr := ''93.184.216.34'', RemotePort := 443, State := StateEstablished,
         TxBytes := 1000, RxBytes := 64, FirstSeen := 1000000000, LastUpdated := 1000000000,
         prevTxBytes := 1000, prevRxBytes := 64, prevTime := 1000000000\<rparr>,
       zeroConnection\<lparr>PID := 911, AppName := ''sshd'', Protocol := ''tcp'',
         Direction := Outbound, LocalAddr := ''10.0.0.5'', LocalPort := 22,
         RemoteAddr := ''93.184.216.34'', RemotePort := 443, State := StateEstablished,
         FirstSeen := 1000000000, LastUpdated := 1000000000, prevTime := 1000000000\<rparr>])"
  by (simp add: demoState_def demo_defs)

lemma demoState2_eq:
  "demoState2 =
     (\<lparr>connections = [(''4242:tcp:10.0.0.5:40000->93.184.216.34:443'', 0),
                      (''911:tcp:10.0.0.5:22->93.184.216.34:443'', 1)],
       interval = 3000000000, pingEnabled = False\<rparr>,
      [zeroConnection\<lparr>PID := 4242, AppName := ''Chrome'', Protocol := ''tcp'',
         Direction := Outbound, LocalAddr := ''10.0.0.5'', LocalPort := 40000,
         RemoteAddr := ''93.184.216.34'', RemotePort := 443, State := StateEstablished,
         TxBytes := 1500, RxBytes := 100, TxRate := 500, RxRate := 36, ConnAge := 1000000000,
         FirstSeen := 1000000000, LastUpdated := 2000000000,
         prevTxBytes := 1000, prevRxBytes := 64, prevTime := 2000000000\<rparr>,
       zeroConnection\<lparr>PID := 911, AppName := ''sshd'', Protocol := ''tcp'',
         Direction := Outbound, LocalAddr := ''10.0.0.5'', LocalPort := 22,
         RemoteAddr := ''93.184.216.34'', RemotePort := 443, State := StateEstablished,
         ConnAge := 1000000000, FirstSeen := 1000000000, LastUpdated := 2000000000,
         prevTime := 2000000000\<rparr>])"
  by (simp add: demoState2_def demo_defs)

lemma demoProbed_eq:
  "demoProbed =
     (\<lparr>connections = [(''4242:tcp:10.0.0.5:40000->93.184.216.34:443'', 0)],
       interval = 3000000000, pingEnabled = True\<rparr>,
      [zeroConnection\<lparr>PID := 4242, AppName := ''Chrome'', Protocol := ''tcp'',
         Direction := Outbound, LocalAddr := ''10.0.0.5'', LocalPort := 40000,
         RemoteAddr := ''93.184.216.34'', RemotePort := 443, State := StateEstablished,
         Ping := 0, Loss := 100,
         TxBytes := 1500, RxBytes := 100, TxRate := 500, RxRate := 36, ConnAge := 1000000000,
         FirstSeen := 1000000000, LastUpdated := 2000000000, PingCount := 2, PingFailed := 1,
         prevTxBytes := 1000, prevRxBytes := 64, prevTime := 2000000000\<rparr>])"
  by code_simp

section \<open>Rates and previous counters\<close>

lemma updateExisting_prevTime: "prevTime (updateExisting now sc e) = now"
  by (simp add: updateExisting_def Let_def)

lemma Sub_self: "Sub now now = 0"
  by (simp add: Sub_def maxDuration_def minDuration_def)

lemma updateExisting_same_time:
  "prevTime e = now \<Longrightarrow>
   TxRate (updateExisting now sc e) = TxRate e \<and> RxRate (updateExisting now sc e) = RxRate e"
  by (simp add: updateExisting_def Let_def Sub_self Seconds_def)

lemma updateExisting_tx_decrease:
  "TxBytes sc < prevTxBytes e \<Longrightarrow> TxRate (updateExisting now sc e) = TxRate e"
  by (simp add: updateExisting_def Let_def not_le [symmetric])

lemma updateExisting_rx_decrease:
  "RxBytes sc < prevRxBytes e \<Longrightarrow> RxRate (updateExisting now sc e) = RxRate e"
  by (simp add: updateExisting_def Let_def not_le [symmetric])

text \<open>
  What a re-observation stores: the rate is the quotient of the counter's increase over
  the stored previous counter by the time since the stored previous time; the new
  previous counter is the counter the record held before this scan, and the counter
  the scan discovered becomes the record's counter.
\<close>

lemma updateExisting_stores:
  "prevTxBytes (updateExisting now sc e) = TxBytes e \<and> prevRxBytes (updateExisting now sc e) = RxBytes e
   \<and> TxBytes (updateExisting now sc e) = TxBytes sc \<and> RxBytes (updateExisting now sc e) = RxBytes sc"
  by (simp add: updateExisting_def Let_def)

lemma updateExisting_rate:
  assumes "\<not> IsZero (prevTime e)" and "0 < Seconds (Sub now (prevTime e))"
    and "prevTxBytes e \<le> TxBytes sc"
  shows "TxRate (updateExisting now sc e)
       = real (unat (TxBytes sc - prevTxBytes e)) / Seconds (Sub now (prevTime e))"
  using assms by (simp add: updateExisting_def Let_def)

text \<open>
  C1. The claim holds of the rate formula and fails of the stored counters. Three scans
  one second apart find the same connection with 100, 200 and 300 bytes sent. After the
  second scan the stored previous counter is 100, the counter of the first scan, and
  not the 200 just discovered; the third scan therefore reports (300 - 100) / 1 s =
  200 bytes per second, where the delta since the preceding sample is 100.
\<close>

theorem previous_counters_lag_a_cycle:
  "map prevTxBytes (snd (Start (demoCycle 1 [demoEntry ''777'' 40000 100 0] refusing)
                           [demoCycle 2 [demoEntry ''777'' 40000 200 0] refusing]
                           (demoTracker False) [])) = [100]
   \<and> map TxBytes (snd (Start (demoCycle 1 [demoEntry ''777'' 40000 100 0] refusing)
                           [demoCycle 2 [demoEntry ''777'' 40000 200 0] refusing]
                           (demoTracker False) [])) = [200]
   \<and> map TxRate (snd (Start (demoCycle 1 [demoEntry ''777'' 40000 100 0] refusing)
                           [demoCycle 2 [demoEntry ''777'' 40000 200 0] refusing,
                            demoCycle 3 [demoEntry ''777'' 40000 300 0] refusing]
                           (demoTracker False) [])) = [200]"
  by (simp add: demo_defs)

lemma scanLoop_same_time:
  "wellFormed conns h \<Longrightarrow> map_of conns k = Some c \<Longrightarrow> prevTime (h ! c) = now
   \<Longrightarrow> scanLoop now scanned (conns, h, alive) = (conns', h', alive')
   \<Longrightarrow> TxRate (h' ! c) = TxRate (h ! c) \<and> RxRate (h' ! c) = RxRate (h ! c)"
proof (induction scanned arbitrary: conns h alive)
  case Nil
  then show ?case by simp
next
  case (Cons sc scanned)
  have c: "c < length h" using Cons.prems(1,2) by (rule lookup_addr_valid)
  show ?case
  proof (cases "map_of conns (Key sc)")
    case None
    with Cons.prems have run: "scanLoop now scanned (AList.update (Key sc) (length h) conns, h @ [newConnection now sc], insert (Key sc) alive) = (conns', h', alive')"
      by (simp add: Let_def)
    from None Cons.prems(2) have look: "map_of (AList.update (Key sc) (length h) conns) k = Some c"
      by (auto simp: update_conv')
    have same: "(h @ [newConnection now sc]) ! c = h ! c" using c by (simp add: nth_append)
    from Cons.IH [OF wellFormed_insert [OF Cons.prems(1) None] look _ run] Cons.prems(3)
    show ?thesis unfolding same by simp
  next
    case (Some p)
    with Cons.prems have run: "scanLoop now scanned (conns, h[p := updateExisting now sc (h ! p)], insert (Key sc) alive) = (conns', h', alive')"
      by (simp add: Let_def)
    have p: "p < length h" using Cons.prems(1) Some by (rule lookup_addr_valid)
    note IH = Cons.IH [OF wellFormed_update [OF Cons.prems(1) p] Cons.prems(2) _ run]
    show ?thesis
    proof (cases "p = c")
      case True
      have cell: "h[p := updateExisting now sc (h ! p)] ! c = updateExisting now sc (h ! c)"
        using True c by simp
      from IH [unfolded cell, OF updateExisting_prevTime]
      show ?thesis using updateExisting_same_time [OF Cons.prems(3), of sc] by simp
    next
      case False
      then have cell: "h[p := updateExisting now sc (h ! p)] ! c = h ! c" by simp
      from IH [unfolded cell, OF Cons.prems(3)] show ?thesis .
    qed
  qed
qed

lemma scanLoop_first_sample:
  assumes wf: "wellFormed conns h" and look: "map_of conns k = Some c"
    and pre: "k \<notin> Key ` set pre" and key: "Key sc = k"
    and run: "scanLoop now (pre @ sc # post) (conns, h, alive) = (conns', h', alive')"
  shows "TxRate (h' ! c) = TxRate (updateExisting now sc (h ! c))
       \<and> RxRate (h' ! c) = RxRate (updateExisting now sc (h ! c))"
proof -
  obtain conns1 h1 alive1 where s1: "scanLoop now pre (conns, h, alive) = (conns1, h1, alive1)"
    by (cases "scanLoop now pre (conns, h, alive)")
  have wf1: "wellFormed conns1 h1" using scanLoop_wellFormed [OF wf s1] by simp
  have look1: "map_of conns1 k = Some c" using scanLoop_lookup [OF look s1] .
  have cell1: "h1 ! c = h ! c" using scanLoop_frame [OF wf look pre s1] .
  have c: "c < length h1" using wf1 look1 by (rule lookup_addr_valid)
  let ?h2 = "h1[c := updateExisting now sc (h1 ! c)]"
  from run have run2: "scanLoop now post (conns1, ?h2, insert k alive1) = (conns', h', alive')"
    by (simp add: scanLoop_append s1 key look1 Let_def)
  have cell2: "?h2 ! c = updateExisting now sc (h ! c)" using c cell1 by simp
  have "prevTime (?h2 ! c) = now" unfolding cell2 by (rule updateExisting_prevTime)
  from scanLoop_same_time [OF wellFormed_update [OF wf1 c] look1 this run2]
  show ?thesis unfolding cell2 .
qed

lemma reconcile_existing:
  assumes wf: "wellFormed (connections t) h" and look: "map_of (connections t) k = Some c"
    and pre: "k \<notin> Key ` set pre" and key: "Key sc = k"
    and run: "reconcile now (pre @ sc # post) t h = (t', h')"
  shows "map_of (connections t') k = Some c"
    and "TxRate (h' ! c) = TxRate (updateExisting now sc (h ! c))"
    and "RxRate (h' ! c) = RxRate (updateExisting now sc (h ! c))"
proof -
  let ?scanned = "pre @ sc # post"
  obtain conns1 h1 alive1 where s1: "scanLoop now ?scanned (connections t, h, {}) = (conns1, h1, alive1)"
    by (cases "scanLoop now ?scanned (connections t, h, {})")
  from run s1 have t': "connections t' = removeStale alive1 conns1" and h': "h' = h1"
    by (auto simp: reconcile_def)
  from scanLoop_alive [OF s1] key have "k \<in> alive1" by auto
  then show "map_of (connections t') k = Some c"
    unfolding t' using scanLoop_lookup [OF look s1] by (simp add: removeStale_lookup)
  from scanLoop_first_sample [OF wf look pre key s1]
  show "TxRate (h' ! c) = TxRate (updateExisting now sc (h ! c))"
    and "RxRate (h' ! c) = RxRate (updateExisting now sc (h ! c))"
    unfolding h' by simp_all
qed

text \<open>
  C4. A scan re-observes the record of key \<open>k\<close>, stored at \<open>c\<close>. The record stays in
  the map at its address, and when every discovered record of that key has a sent
  counter strictly below the stored previous one, the send rate after the scan cycle is
  the send rate before it; likewise for the received counter and the receive rate.
\<close>

theorem decreased_counter_keeps_rate:
  assumes wf: "wellFormed (connections t) h"
    and look: "map_of (connections t) k = Some c"
    and seen: "k \<in> Key ` set scanned"
    and run: "scan now (Inr scanned) net t h = (t', h')"
  shows "map_of (connections t') k = Some c
       \<and> ((\<forall>sc \<in> set scanned. Key sc = k \<longrightarrow> TxBytes sc < prevTxBytes (h ! c))
            \<longrightarrow> TxRate (h' ! c) = TxRate (h ! c))
       \<and> ((\<forall>sc \<in> set scanned. Key sc = k \<longrightarrow> RxBytes sc < prevRxBytes (h ! c))
            \<longrightarrow> RxRate (h' ! c) = RxRate (h ! c))"
proof -
  from seen have "\<exists>sc \<in> set scanned. Key sc = k" by auto
  then obtain pre sc post where split: "scanned = pre @ sc # post"
    and key: "Key sc = k" and pre: "\<forall>x \<in> set pre. Key x \<noteq> k"
    by (auto dest!: split_list_first_prop)
  from pre have pre': "k \<notin> Key ` set pre" by auto
  obtain t1 h1 where rec: "reconcile now (pre @ sc # post) t h = (t1, h1)"
    by (cases "reconcile now (pre @ sc # post) t h")
  note ex = reconcile_existing [OF wf look pre' key rec]
  from scan_withoutProbe(1) [OF run] scan_withoutProbe(2) [OF run, of c] rec split
  have t': "t' = t1" and cell: "withoutProbe (h' ! c) = withoutProbe (h1 ! c)" by simp_all
  have sc: "sc \<in> set scanned" by (simp add: split)
  have tx: "TxRate (h' ! c) = TxRate (h ! c)"
    if "\<forall>sc \<in> set scanned. Key sc = k \<longrightarrow> TxBytes sc < prevTxBytes (h ! c)"
  proof -
    from that sc key have "TxBytes sc < prevTxBytes (h ! c)" by simp
    then show ?thesis
      using withoutProbe_fields(1) [OF cell] ex(2) by (simp add: updateExisting_tx_decrease)
  qed
  have rx: "RxRate (h' ! c) = RxRate (h ! c)"
    if "\<forall>sc \<in> set scanned. Key sc = k \<longrightarrow> RxBytes sc < prevRxBytes (h ! c)"
  proof -
    from that sc key have "RxBytes sc < prevRxBytes (h ! c)" by simp
    then show ?thesis
      using withoutProbe_fields(2) [OF cell] ex(3) by (simp add: updateExisting_rx_decrease)
  qed
  from ex(1) tx rx show ?thesis unfolding t' by blast
qed

theorem decreased_counter_keeps_rate_witness:
  "wellFormed (connections (fst demoState2)) (snd demoState2)
   \<and> map_of (connections (fst demoState2)) ''4242:tcp:10.0.0.5:40000->93.184.216.34:443'' = Some 0
   \<and> prevTxBytes (snd demoState2 ! 0) = 1000 \<and> prevRxBytes (snd demoState2 ! 0) = 64
   \<and> TxRate (snd demoState2 ! 0) = 500 \<and> RxRate (snd demoState2 ! 0) = 36
   \<and> discover (demoWorld 3 [demoEntry ''777'' 40000 500 10])
       = Inr [zeroConnection\<lparr>PID := 4242, AppName := ''Chrome'', Protocol := ''tcp'',
                Direction := Outbound, LocalAddr := ''10.0.0.5'', LocalPort := 40000,
                RemoteAddr := ''93.184.216.34'', RemotePort := 443, State := StateEstablished,
                TxBytes := 500, RxBytes := 10, FirstSeen := 3000000000, LastUpdated := 3000000000\<rparr>]
   \<and> TxRate (snd (scanCycle (demoCycle 3 [demoEntry ''777'' 40000 500 10] refusing) demoState2) ! 0) = 500
   \<and> RxRate (snd (scanCycle (demoCycle 3 [demoEntry ''777'' 40000 500 10] refusing) demoState2) ! 0) = 36"
proof -
  let ?k = "''4242:tcp:10.0.0.5:40000->93.184.216.34:443''"
  let ?sc = "zeroConnection\<lparr>PID := 4242, AppName := ''Chrome'', Protocol := ''tcp'',
                Direction := Outbound, LocalAddr := ''10.0.0.5'', LocalPort := 40000,
                RemoteAddr := ''93.184.216.34'', RemotePort := 443, State := StateEstablished,
                TxBytes := 500, RxBytes := 10, FirstSeen := 3000000000, LastUpdated := 3000000000\<rparr>"
  let ?s = "scanCycle (demoCycle 3 [demoEntry ''777'' 40000 500 10] refusing) demoState2"
  have wf: "wellFormed (connections (fst demoState2)) (snd demoState2)"
    by (simp add: demoState2_eq wellFormed_def)
  have look: "map_of (connections (fst demoState2)) ?k = Some 0"
    by (simp add: demoState2_eq)
  have cell: "prevTxBytes (snd demoState2 ! 0) = 1000" "prevRxBytes (snd demoState2 ! 0) = 64"
    "TxRate (snd demoState2 ! 0) = 500" "RxRate (snd demoState2 ! 0) = 36"
    by (simp_all add: demoState2_eq)
  have disc: "discover (demoWorld 3 [demoEntry ''777'' 40000 500 10]) = Inr [?sc]"
    by (simp add: demo_defs)
  have key: "Key ?sc = ?k" by (simp add: demo_defs)
  then have seen: "?k \<in> Key ` set [?sc]" by simp
  have run: "scan 3000000000 (Inr [?sc]) (\<lambda>c. refusing) (fst demoState2) (snd demoState2) = (fst ?s, snd ?s)"
    by (simp add: scanCycle_def demoCycle_def disc case_prod_beta)
  have tx: "\<forall>sc \<in> set [?sc]. Key sc = ?k \<longrightarrow> TxBytes sc < prevTxBytes (snd demoState2 ! 0)"
    by (simp add: cell)
  have rx: "\<forall>sc \<in> set [?sc]. Key sc = ?k \<longrightarrow> RxBytes sc < prevRxBytes (snd demoState2 ! 0)"
    by (simp add: cell)
  from decreased_counter_keeps_rate [OF wf look seen run] tx rx
  have "TxRate (snd ?s ! 0) = TxRate (snd demoState2 ! 0)"
    and "RxRate (snd ?s ! 0) = RxRate (snd demoState2 ! 0)" by blast+
  with wf look cell disc show ?thesis by simp
qed

section \<open>The keys of the live map\<close>

lemma reconcile_keys:
  assumes "reconcile now scanned t h = (t', h')"
  shows "fst ` set (connections t') = Key ` set scanned"
proof -
  obtain conns1 h1 alive1 where s1: "scanLoop now scanned (connections t, h, {}) = (conns1, h1, alive1)"
    by (cases "scanLoop now scanned (connections t, h, {})")
  from scanLoop_alive [OF s1] have alive: "alive1 = Key ` set scanned" by simp
  from assms s1 have "connections t' = removeStale alive1 conns1"
    by (auto simp: reconcile_def)
  then show ?thesis
    using scanLoop_keys [OF s1] by (auto simp: removeStale_keys alive)
qed

text \<open>
  C2. After a scan cycle whose discovery succeeded, the keys of the live map are exactly
  the keys of the discovered records: every key of the map was discovered, every
  discovered key is in the map, and a key that was in the map and was not discovered
  is gone.
\<close>

theorem scan_live_keys:
  assumes "scan now (Inr scanned) net t h = (t', h')"
  shows "dom (map_of (connections t')) = Key ` set scanned
       \<and> (\<forall>k \<in> dom (map_of (connections t')). k \<in> Key ` set scanned)
       \<and> (\<forall>sc \<in> set scanned. Key sc \<in> dom (map_of (connections t')))
       \<and> (\<forall>k \<in> dom (map_of (connections t)). k \<notin> Key ` set scanned
             \<longrightarrow> k \<notin> dom (map_of (connections t')))"
proof -
  from assms have "t' = fst (reconcile now scanned t h)"
    by (auto simp: scan_def split: prod.splits if_splits)
  then have "fst ` set (connections t') = Key ` set scanned"
    using reconcile_keys [of now scanned t h] by (cases "reconcile now scanned t h") simp
  then have "dom (map_of (connections t')) = Key ` set scanned"
    by (simp add: dom_map_of_conv_image_fst)
  then show ?thesis by auto
qed

theorem scan_live_keys_witness:
  "discover (demoWorld 2 [demoEntry ''778'' 22 0 0])
     = Inr [zeroConnection\<lparr>PID := 911, AppName := ''sshd'', Protocol := ''tcp'',
              Direction := Outbound, LocalAddr := ''10.0.0.5'', LocalPort := 22,
              RemoteAddr := ''93.184.216.34'', RemotePort := 443, State := StateEstablished,
              FirstSeen := 2000000000, LastUpdated := 2000000000\<rparr>]
   \<and> dom (map_of (connections (fst demoState)))
       = {''4242:tcp:10.0.0.5:40000->93.184.216.34:443'', ''911:tcp:10.0.0.5:22->93.184.216.34:443''}
   \<and> dom (map_of (connections (fst (scanCycle (demoCycle 2 [demoEntry ''778'' 22 0 0] refusing) demoState))))
       = {''911:tcp:10.0.0.5:22->93.184.216.34:443''}"
proof -
  let ?sc = "zeroConnection\<lparr>PID := 911, AppName := ''sshd'', Protocol := ''tcp'',
              Direction := Outbound, LocalAddr := ''10.0.0.5'', LocalPort := 22,
              RemoteAddr := ''93.184.216.34'', RemotePort := 443, State := StateEstablished,
              FirstSeen := 2000000000, LastUpdated := 2000000000\<rparr>"
  let ?s = "scanCycle (demoCycle 2 [demoEntry ''778'' 22 0 0] refusing) demoState"
  have disc: "discover (demoWorld 2 [demoEntry ''778'' 22 0 0]) = Inr [?sc]"
    by (simp add: demo_defs)
  have run: "scan 2000000000 (Inr [?sc]) (\<lambda>c. refusing) (fst demoState) (snd demoState) = (fst ?s, snd ?s)"
    by (simp add: scanCycle_def demoCycle_def disc case_prod_beta)
  have before: "dom (map_of (connections (fst demoState)))
       = {''4242:tcp:10.0.0.5:40000->93.184.216.34:443'', ''911:tcp:10.0.0.5:22->93.184.216.34:443''}"
    by (auto simp: demoState_eq)
  have key: "Key ?sc = ''911:tcp:10.0.0.5:22->93.184.216.34:443''"
    by (simp add: demo_defs)
  from scan_live_keys [OF run] have "dom (map_of (connections (fst ?s))) = Key ` set [?sc]" by blast
  then have "dom (map_of (connections (fst ?s))) = {''911:tcp:10.0.0.5:22->93.184.216.34:443''}"
    by (simp add: key)
  with disc before show ?thesis by blast
qed

section \<open>A failed discovery\<close>

text \<open>
  C3. When the discovery provider returns an error, the scan cycle returns at once:
  the tracker (its map and its fields) and every record of the store are what they
  were, no probe runs, and \<open>scan\<close> has no result through which an error could reach
  its caller.
\<close>

theorem scan_discovery_error_no_change:
  "scan now (Inl err) net t h = (t, h)"
  by (simp add: scan_def)

section \<open>The first observation of a connection\<close>

lemma scanLoop_insert:
  assumes wf: "wellFormed conns h" and look: "map_of conns k = None"
    and pre: "k \<notin> Key ` set pre" and key: "Key sc = k"
    and run: "scanLoop now (pre @ [sc]) (conns, h, alive) = (conns1, h1, alive1)"
  shows "\<exists>c. map_of conns1 k = Some c \<and> h1 ! c = newConnection now sc \<and> wellFormed conns1 h1"
proof -
  obtain conns0 h0 alive0 where s0: "scanLoop now pre (conns, h, alive) = (conns0, h0, alive0)"
    by (cases "scanLoop now pre (conns, h, alive)")
  have wf0: "wellFormed conns0 h0" using scanLoop_wellFormed [OF wf s0] by simp
  from look have "k \<notin> fst ` set conns" by (simp add: map_of_eq_None_iff)
  with scanLoop_keys [OF s0] pre have "k \<notin> fst ` set conns0" by simp
  then have look0: "map_of conns0 k = None" by (simp add: map_of_eq_None_iff)
  from run have conns1: "conns1 = AList.update k (length h0) conns0"
    and h1: "h1 = h0 @ [newConnection now sc]"
    by (simp_all add: scanLoop_append s0 key look0 Let_def)
  have "map_of conns1 k = Some (length h0)" by (simp add: conns1 update_conv')
  moreover have "h1 ! length h0 = newConnection now sc" by (simp add: h1)
  moreover have "wellFormed conns1 h1" unfolding conns1 h1 using wf0 look0 by (rule wellFormed_insert)
  ultimately show ?thesis by blast
qed

lemma newConnection_firstObservation:
  "TxRate sc = 0 \<Longrightarrow> RxRate sc = 0 \<Longrightarrow> withoutProbe c = withoutProbe (newConnection now sc)
   \<Longrightarrow> spec_firstObservation now sc c"
proof -
  assume zero: "TxRate sc = 0" "RxRate sc = 0"
    and cell: "withoutProbe c = withoutProbe (newConnection now sc)"
  note f = withoutProbe_fields [OF cell]
  show ?thesis unfolding spec_firstObservation_def f using zero
    by (simp add: newConnection_def Let_def)
qed

text \<open>
  C5. A scanner discovers the records \<open>pre @ sc # post\<close>; the key of \<open>sc\<close> is not in
  the live map and not among \<open>pre\<close>, so \<open>sc\<close> is observed for the first time. Right
  after the loop has inserted it, the map holds the key, and the stored record has
  first-seen and last-updated equal to the scan time, previous counters and counters
  equal to the discovered counters, and both rates zero. When no later record of the scan
  has the same key, the same holds at the end of the scan cycle.
\<close>

theorem first_observation_initialised:
  assumes wf: "wellFormed (connections t) h"
    and disc: "discover world = Inr (pre @ sc # post)"
    and new: "map_of (connections t) (Key sc) = None"
    and pre: "Key sc \<notin> Key ` set pre"
    and ins: "scanLoop now (pre @ [sc]) (connections t, h, {}) = (conns1, h1, alive1)"
    and run: "scan now (discover world) net t h = (t', h')"
  shows "\<exists>c. map_of conns1 (Key sc) = Some c \<and> spec_firstObservation now sc (h1 ! c)
           \<and> (Key sc \<notin> Key ` set post
                \<longrightarrow> map_of (connections t') (Key sc) = Some c \<and> spec_firstObservation now sc (h' ! c))"
proof -
  from discover_fresh [OF disc, of sc] have zero: "TxRate sc = 0" "RxRate sc = 0" by simp_all
  from scanLoop_insert [OF wf new pre refl ins]
  obtain c where look1: "map_of conns1 (Key sc) = Some c"
    and cell1: "h1 ! c = newConnection now sc" and wf1: "wellFormed conns1 h1" by blast
  have first: "spec_firstObservation now sc (h1 ! c)"
    using zero by (rule newConnection_firstObservation) (simp add: cell1)
  have last: "map_of (connections t') (Key sc) = Some c \<and> spec_firstObservation now sc (h' ! c)"
    if post: "Key sc \<notin> Key ` set post"
  proof -
    obtain conns2 h2 alive2 where s2: "scanLoop now post (conns1, h1, alive1) = (conns2, h2, alive2)"
      by (cases "scanLoop now post (conns1, h1, alive1)")
    have whole: "scanLoop now (pre @ sc # post) (connections t, h, {}) = (conns2, h2, alive2)"
      using scanLoop_append [of now "pre @ [sc]" post "(connections t, h, {})"] by (simp add: ins s2)
    then have rec: "reconcile now (pre @ sc # post) t h = (t\<lparr>connections := removeStale alive2 conns2\<rparr>, h2)"
      by (simp add: reconcile_def)
    from scanLoop_alive [OF whole] have "Key sc \<in> alive2" by simp
    then have look2: "map_of (removeStale alive2 conns2) (Key sc) = Some c"
      using scanLoop_lookup [OF look1 s2] by (simp add: removeStale_lookup)
    have cell2: "h2 ! c = newConnection now sc"
      using scanLoop_frame [OF wf1 look1 post s2] cell1 by simp
    from run disc have run': "scan now (Inr (pre @ sc # post)) net t h = (t', h')" by simp
    from scan_withoutProbe(1) [OF run'] scan_withoutProbe(2) [OF run', of c]
    have "connections t' = removeStale alive2 conns2"
      and "withoutProbe (h' ! c) = withoutProbe (newConnection now sc)"
      by (simp_all add: rec cell2)
    with look2 newConnection_firstObservation [OF zero] show ?thesis by simp
  qed
  from look1 first last show ?thesis by blast
qed

theorem first_observation_initialised_witness:
  "wellFormed (connections (demoTracker False)) []
   \<and> map (\<lambda>sc. (AppName sc, TxBytes sc, RxBytes sc))
         (projr (discover (demoWorld 1 [demoEntry ''777'' 40000 1000 64, demoEntry ''778'' 22 0 0])))
       = [(''Chrome'', 1000, 64), (''sshd'', 0, 0)]
   \<and> map_of (connections (demoTracker False)) ''4242:tcp:10.0.0.5:40000->93.184.216.34:443'' = None
   \<and> map_of (connections (fst demoState)) ''4242:tcp:10.0.0.5:40000->93.184.216.34:443'' = Some 0
   \<and> spec_firstObservation 1000000000
         (hd (projr (discover (demoWorld 1 [demoEntry ''777'' 40000 1000 64, demoEntry ''778'' 22 0 0]))))
         (snd demoState ! 0)"
proof -
  let ?k = "''4242:tcp:10.0.0.5:40000->93.184.216.34:443''"
  let ?world = "demoWorld 1 [demoEntry ''777'' 40000 1000 64, demoEntry ''778'' 22 0 0]"
  let ?chrome = "zeroConnection\<lparr>PID := 4242, AppName := ''Chrome'', Protocol := ''tcp'',
         Direction := Outbound, LocalAddr := ''10.0.0.5'', LocalPort := 40000,
         RemoteAddr := ''93.184.216.34'', RemotePort := 443, State := StateEstablished,
         TxBytes := 1000, RxBytes := 64, FirstSeen := 1000000000, LastUpdated := 1000000000\<rparr>"
  let ?sshd = "zeroConnection\<lparr>PID := 911, AppName := ''sshd'', Protocol := ''tcp'',
         Direction := Outbound, LocalAddr := ''10.0.0.5'', LocalPort := 22,
         RemoteAddr := ''93.184.216.34'', RemotePort := 443, State := StateEstablished,
         FirstSeen := 1000000000, LastUpdated := 1000000000\<rparr>"
  let ?t = "demoTracker False"
  have wf: "wellFormed (connections ?t) []"
    by (simp add: demoTracker_def NewTracker_def wellFormed_def)
  have disc: "discover ?world = Inr ([] @ ?chrome # [?sshd])"
    by (simp add: demo_defs)
  have key: "Key ?chrome = ?k" and key2: "Key ?sshd \<noteq> ?k" by (simp_all add: demo_defs)
  have new: "map_of (connections ?t) (Key ?chrome) = None"
    by (simp add: demoTracker_def NewTracker_def)
  have pre: "Key ?chrome \<notin> Key ` set []" by simp
  have ins: "scanLoop 1000000000 ([] @ [?chrome]) (connections ?t, [], {})
      = ([(?k, 0)], [newConnection 1000000000 ?chrome], {?k})"
    by (simp add: demoTracker_def NewTracker_def key Let_def)
  have run: "scan 1000000000 (discover ?world) (\<lambda>c. refusing) ?t [] = (fst demoState, snd demoState)"
    by (simp add: demoState_def Start_def scanCycle_def demoCycle_def)
  from first_observation_initialised [OF wf disc new pre ins run]
  obtain c where "map_of [(?k, 0 :: addr)] (Key ?chrome) = Some c"
    and "Key ?chrome \<notin> Key ` set [?sshd]
           \<longrightarrow> map_of (connections (fst demoState)) (Key ?chrome) = Some c
             \<and> spec_firstObservation 1000000000 ?chrome (snd demoState ! c)" by blast
  with key key2 have "map_of (connections (fst demoState)) ?k = Some 0"
    and "spec_firstObservation 1000000000 ?chrome (snd demoState ! 0)" by auto
  moreover have "map (\<lambda>sc. (AppName sc, TxBytes sc, RxBytes sc)) (projr (discover ?world))
       = [(''Chrome'', 1000, 64), (''sshd'', 0, 0)]"
    by (simp add: disc zeroConnection_def)
  ultimately show ?thesis using wf new key by (simp add: disc)
qed

section \<open>The prober on local and wildcard addresses\<close>

text \<open>
  C6, as the code has it. For the four addresses the guard of \<open>MeasurePing\<close>
  names, \<open>0.0.0.0\<close>, \<open>::\<close>, \<open>127.0.0.1\<close> and \<open>::1\<close>, the prober returns a zero
  round-trip time and a zero loss and dials nothing, whatever the port and the network.
\<close>

theorem MeasurePing_guard_noop:
  "addr \<in> {''0.0.0.0'', ''::'', ''127.0.0.1'', ''::1''} \<Longrightarrow> MeasurePing addr port dial = (0, 0, [])"
  by (auto simp: MeasurePing_def)

theorem MeasurePing_guard_noop_witness:
  "''127.0.0.1'' \<in> {''0.0.0.0'', ''::'', ''127.0.0.1'', ''::1''}
   \<and> MeasurePing ''127.0.0.1'' 443 refusing = (0, 0, [])"
  using MeasurePing_guard_noop [of "''127.0.0.1''" 443 refusing] by simp

text \<open>
  C6, as it is stated, fails: \<open>127.0.0.53\<close> is a loopback address, and the prober
  dials it three times; on a network that refuses, it reports a loss of 100.
\<close>

theorem MeasurePing_loopback_counterexample:
  "(spec_unspecified ''127.0.0.53'' \<or> spec_loopback ''127.0.0.53'')
   \<and> MeasurePing ''127.0.0.53'' 53 refusing
       = (0, 100, [''127.0.0.53:53'', ''127.0.0.53:53'', ''127.0.0.53:53''])"
  by (simp add: spec_loopback_def MeasurePing_def JoinHostPort_def itoa_def intToStr_def
      digits.simps refusing_def pingCount_def numeral_3_eq_3 Let_def)

section \<open>Snapshot and Search\<close>

lemma upt_head: "[a ..< a + Suc n] = a # [a + 1 ..< a + 1 + n]"
  by (subst upt_rec) simp

lemma copies_fold:
  "\<forall>c \<in> set cs. c < length h
   \<Longrightarrow> foldl copyTo (res, h @ acc) cs
       = (res @ [length h + length acc ..< length h + length acc + length cs],
          h @ acc @ map (\<lambda>c. h ! c) cs)"
proof (induction cs arbitrary: res acc)
  case Nil
  then show ?case by simp
next
  case (Cons c cs)
  from Cons.prems have c: "c < length h" and rest: "\<forall>c \<in> set cs. c < length h" by simp_all
  have step: "copyTo (res, h @ acc) c = (res @ [length h + length acc], h @ (acc @ [h ! c]))"
    using c by (simp add: copyTo_def nth_append)
  have "[length h + length acc ..< length h + length acc + length (c # cs)]
      = (length h + length acc) # [length h + length (acc @ [h ! c]) ..< length h + length (acc @ [h ! c]) + length cs]"
    using upt_head [of "length h + length acc" "length cs"] by (simp add: add.assoc)
  then show ?case using Cons.IH [OF rest, of "res @ [length h + length acc]" "acc @ [h ! c]"]
    by (simp add: step)
qed

lemma Snapshot_eq:
  assumes "wellFormed (connections t) h"
  shows "Snapshot t h
       = ([length h ..< length h + length (connections t)],
          h @ map (\<lambda>c. h ! c) (map snd (connections t)))"
proof -
  from assms have "\<forall>c \<in> set (map snd (connections t)). c < length h"
    by (auto simp: wellFormed_def)
  from copies_fold [OF this, of "[]" "[]"] show ?thesis by (simp add: Snapshot_def)
qed



lemma records_fresh:
  "records ([length h ..< length h + length xs], h @ xs) = xs"
  unfolding records_def by (rule nth_equalityI) (simp_all add: nth_append)

lemma live_nth_grow:
  "wellFormed conns h \<Longrightarrow> map (\<lambda>c. (h @ ys) ! c) (map snd conns) = map (\<lambda>c. h ! c) (map snd conns)"
  by (auto simp: wellFormed_def nth_append)

lemma records_Snapshot:
  assumes "wellFormed (connections t) h"
  shows "records (Snapshot t h) = map (\<lambda>c. h ! c) (map snd (connections t))"
  using records_fresh [of h "map (\<lambda>c. h ! c) (map snd (connections t))"]
  by (simp add: Snapshot_eq [OF assms])





text \<open>
  C8. A snapshot returns a copy of every live record, at new addresses that are
  distinct and not in the live map. Storing any record \<open>v\<close> at a returned address
  \<open>q\<close> leaves the store as it was before the snapshot, every live record with it, and
  the next snapshot returns the same records as the first.
\<close>

theorem snapshot_isolation:
  assumes wf: "wellFormed (connections t) h"
    and snap: "Snapshot t h = (result, h1)"
    and q: "q \<in> set result"
  shows "records (result, h1) = map (\<lambda>c. h ! c) (map snd (connections t))
       \<and> distinct result \<and> q \<notin> snd ` set (connections t)
       \<and> take (length h) (h1[q := v]) = h
       \<and> (\<forall>c \<in> snd ` set (connections t). h1[q := v] ! c = h ! c)
       \<and> records (Snapshot t (h1[q := v])) = records (result, h1)"
proof -
  let ?live = "map (\<lambda>c. h ! c) (map snd (connections t))"
  from snap Snapshot_eq [OF wf]
  have result: "result = [length h ..< length h + length (connections t)]"
    and h1: "h1 = h @ ?live" by simp_all
  have copies: "records (result, h1) = ?live"
    using records_Snapshot [OF wf] snap by simp
  from q have fresh: "length h \<le> q" by (simp add: result)
  have valid: "\<forall>c \<in> snd ` set (connections t). c < length h"
    using wf by (auto simp: wellFormed_def)
  with fresh have apart: "q \<notin> snd ` set (connections t)" by auto
  have mutated: "h1[q := v] = h @ ?live[q - length h := v]"
    using fresh by (simp add: h1 list_update_append)
  have prior: "take (length h) (h1[q := v]) = h" by (simp add: mutated)
  have cells: "\<forall>c \<in> snd ` set (connections t). h1[q := v] ! c = h ! c"
    using valid by (simp add: mutated nth_append)
  have "records (Snapshot t (h1[q := v])) = map (\<lambda>c. (h1[q := v]) ! c) (map snd (connections t))"
    unfolding mutated using wellFormed_grow [OF wf] by (rule records_Snapshot)
  also have "\<dots> = ?live" unfolding mutated using wf by (rule live_nth_grow)
  finally have again: "records (Snapshot t (h1[q := v])) = records (result, h1)"
    by (simp add: copies)
  have "distinct result" by (simp add: result)
  with copies apart prior cells again show ?thesis by blast
qed

theorem snapshot_isolation_witness:
  "wellFormed (connections (fst demoState)) (snd demoState)
   \<and> fst (Snapshot (fst demoState) (snd demoState)) = [2, 3]
   \<and> records (Snapshot (fst demoState) (snd demoState)) = snd demoState
   \<and> records (Snapshot (fst demoState) ((snd (Snapshot (fst demoState) (snd demoState)))[2 := zeroConnection]))
       = snd demoState"
proof -
  let ?t = "fst demoState" and ?h = "snd demoState"
  let ?result = "fst (Snapshot ?t ?h)" and ?h1 = "snd (Snapshot ?t ?h)"
  have wf: "wellFormed (connections ?t) ?h"
    by (simp add: demoState_eq wellFormed_def)
  have snap: "Snapshot ?t ?h = (?result, ?h1)" by simp
  have result: "?result = [2, 3]"
    by (simp add: demoState_eq Snapshot_def copyTo_def)
  then have q: "2 \<in> set ?result" by simp
  have live: "map (\<lambda>c. ?h ! c) (map snd (connections ?t)) = ?h"
    by (simp add: demoState_eq)
  from snapshot_isolation [OF wf snap q, of zeroConnection]
  have "records (?result, ?h1) = map (\<lambda>c. ?h ! c) (map snd (connections ?t))"
    and "records (Snapshot ?t (?h1[2 := zeroConnection])) = records (?result, ?h1)"
    by blast+
  then have "records (Snapshot ?t ?h) = ?h"
    and "records (Snapshot ?t (?h1[2 := zeroConnection])) = ?h"
    using live by simp_all
  with wf result show ?thesis by simp
qed

section \<open>Probe attempts and failures\<close>

lemma wrap64_succ: "0 \<le> x \<Longrightarrow> x + 1 < 2 ^ 63 \<Longrightarrow> wrap64 (x + 1) = x + 1"
  by (simp add: wrap64_def)

lemma writeBack_counts:
  assumes "counted n c" and "n + 1 < 2 ^ 63"
  shows "PingCount (writeBack rtt loss c) = PingCount c + 1"
    and "PingFailed (writeBack rtt loss c) = (if loss \<ge> 100 then PingFailed c + 1 else PingFailed c)"
proof -
  from assms have "wrap64 (PingCount c + 1) = PingCount c + 1"
    and "wrap64 (PingFailed c + 1) = PingFailed c + 1"
    by (auto simp: counted_def intro!: wrap64_succ)
  then show "PingCount (writeBack rtt loss c) = PingCount c + 1"
    and "PingFailed (writeBack rtt loss c) = (if loss \<ge> 100 then PingFailed c + 1 else PingFailed c)"
    by (simp_all add: writeBack_def Let_def)
qed

lemma writeBack_counted:
  assumes "counted n c" and "n + 1 < 2 ^ 63"
  shows "counted (n + 1) (writeBack rtt loss c)"
  using assms writeBack_counts [OF assms, of rtt loss] by (auto simp: counted_def)

lemma counted_mono: "counted n c \<Longrightarrow> n \<le> m \<Longrightarrow> counted m c"
  by (auto simp: counted_def)

lemma updateExisting_counts:
  "PingCount (updateExisting now sc e) = PingCount e \<and> PingFailed (updateExisting now sc e) = PingFailed e"
  by (simp add: updateExisting_def Let_def)

lemma newConnection_counts:
  "PingCount (newConnection now sc) = PingCount sc \<and> PingFailed (newConnection now sc) = PingFailed sc"
  by (simp add: newConnection_def Let_def)

lemma scanLoop_counted:
  "\<forall>c \<in> set h. counted n c \<Longrightarrow> \<forall>sc \<in> set scanned. counted n sc
   \<Longrightarrow> scanLoop now scanned (conns, h, alive) = (conns', h', alive')
   \<Longrightarrow> \<forall>c \<in> set h'. counted n c"
proof (induction scanned arbitrary: conns h alive)
  case Nil
  then show ?case by simp
next
  case (Cons sc scanned)
  from Cons.prems(2) have sc: "counted n sc" and rest: "\<forall>sc \<in> set scanned. counted n sc" by simp_all
  show ?case
  proof (cases "map_of conns (Key sc)")
    case None
    with Cons.prems have run: "scanLoop now scanned (AList.update (Key sc) (length h) conns, h @ [newConnection now sc], insert (Key sc) alive) = (conns', h', alive')"
      by (simp add: Let_def)
    from sc have "counted n (newConnection now sc)" by (simp add: counted_def newConnection_counts)
    with Cons.prems(1) have "\<forall>c \<in> set (h @ [newConnection now sc]). counted n c" by simp
    from Cons.IH [OF this rest run] show ?thesis .
  next
    case (Some p)
    with Cons.prems have run: "scanLoop now scanned (conns, h[p := updateExisting now sc (h ! p)], insert (Key sc) alive) = (conns', h', alive')"
      by (simp add: Let_def)
    have "\<forall>c \<in> set (h[p := updateExisting now sc (h ! p)]). counted n c"
    proof (cases "p < length h")
      case True
      with Cons.prems(1) have "counted n (updateExisting now sc (h ! p))"
        by (simp add: counted_def updateExisting_counts)
      with Cons.prems(1) show ?thesis
        using set_update_subset_insert [of h p] by blast
    next
      case False
      with Cons.prems(1) show ?thesis by (simp add: list_update_beyond)
    qed
    from Cons.IH [OF this rest run] show ?thesis .
  qed
qed

lemma reconcile_invariant:
  assumes "wellFormed (connections t) h" and "\<forall>c \<in> set h. counted n c"
    and "\<forall>sc \<in> set scanned. counted n sc" and "reconcile now scanned t h = (t', h')"
  shows "wellFormed (connections t') h' \<and> (\<forall>c \<in> set h'. counted n c)"
proof -
  obtain conns1 h1 alive1 where s1: "scanLoop now scanned (connections t, h, {}) = (conns1, h1, alive1)"
    by (cases "scanLoop now scanned (connections t, h, {})")
  from assms(4) s1 have t': "connections t' = removeStale alive1 conns1" and h': "h' = h1"
    by (auto simp: reconcile_def)
  from scanLoop_wellFormed [OF assms(1) s1] scanLoop_counted [OF assms(2,3) s1]
  show ?thesis unfolding t' h' by (simp add: wellFormed_removeStale)
qed

lemma probes_counted:
  "distinct targets \<Longrightarrow> \<forall>c \<in> set targets. c < length h \<Longrightarrow> n + 1 < 2 ^ 63
   \<Longrightarrow> \<forall>i < length h. counted (n + 1) (h ! i) \<and> (i \<in> set targets \<longrightarrow> counted n (h ! i))
   \<Longrightarrow> length (fold (\<lambda>c h. probe net h c) targets h) = length h
     \<and> (\<forall>i < length h. counted (n + 1) (fold (\<lambda>c h. probe net h c) targets h ! i))"
proof (induction targets arbitrary: h)
  case Nil
  then show ?case by simp
next
  case (Cons c targets)
  let ?h1 = "probe net h c"
  from Cons.prems(1) have dist: "distinct targets" and notin: "c \<notin> set targets" by simp_all
  from Cons.prems(2) have c: "c < length h" by simp
  have len: "length ?h1 = length h" by (rule length_probe)
  from Cons.prems(2) have valid: "\<forall>c \<in> set targets. c < length ?h1" by (simp add: len)
  have cells: "\<forall>i < length ?h1. counted (n + 1) (?h1 ! i) \<and> (i \<in> set targets \<longrightarrow> counted n (?h1 ! i))"
  proof (intro allI impI)
    fix i assume "i < length ?h1"
    then have i: "i < length h" by (simp add: len)
    from probe_nth [OF c, of net i] obtain rtt loss
      where cell: "?h1 ! i = (if i = c then writeBack rtt loss (h ! c) else h ! i)" by blast
    show "counted (n + 1) (?h1 ! i) \<and> (i \<in> set targets \<longrightarrow> counted n (?h1 ! i))"
    proof (cases "i = c")
      case True
      from Cons.prems(4) c have "counted n (h ! c)" by simp
      from writeBack_counted [OF this Cons.prems(3)] True cell notin show ?thesis by simp
    next
      case False
      with cell Cons.prems(4) i show ?thesis by simp
    qed
  qed
  from Cons.IH [OF dist valid Cons.prems(3) cells] show ?case by (simp add: len)
qed

lemma pingAll_invariant:
  assumes wf: "wellFormed (connections t) h" and cells: "\<forall>c \<in> set h. counted n c"
    and bound: "n + 1 < 2 ^ 63"
  shows "length (pingAll net t h) = length h \<and> (\<forall>c \<in> set (pingAll net t h). counted (n + 1) c)"
proof -
  let ?targets = "filter (\<lambda>c. eligible (h ! c)) (map snd (connections t))"
  from wf have dist: "distinct ?targets" and valid: "\<forall>c \<in> set ?targets. c < length h"
    by (auto simp: wellFormed_def)
  from cells have "\<forall>i < length h. counted n (h ! i)" by simp
  then have "\<forall>i < length h. counted (n + 1) (h ! i) \<and> (i \<in> set ?targets \<longrightarrow> counted n (h ! i))"
    using counted_mono [of n _ "n + 1"] by simp
  from probes_counted [OF dist valid bound this, of net]
  show ?thesis by (auto simp: pingAll_def Let_def in_set_conv_nth)
qed

lemma scan_invariant:
  assumes wf: "wellFormed (connections t) h" and cells: "\<forall>c \<in> set h. counted n c"
    and n: "0 \<le> n" and bound: "n + 1 < 2 ^ 63"
    and run: "scan now (discover world) net t h = (t', h')"
  shows "wellFormed (connections t') h' \<and> (\<forall>c \<in> set h'. counted (n + 1) c)"
proof (cases "discover world")
  case (Inl err)
  with run have "t' = t" and "h' = h" by (simp_all add: scan_def)
  with wf cells show ?thesis by (auto intro: counted_mono)
next
  case (Inr scanned)
  obtain t1 h1 where rec: "reconcile now scanned t h = (t1, h1)"
    by (cases "reconcile now scanned t h")
  from discover_fresh [OF Inr] n have "\<forall>sc \<in> set scanned. counted n sc"
    by (simp add: counted_def)
  from reconcile_invariant [OF wf cells this rec]
  have wf1: "wellFormed (connections t1) h1" and cells1: "\<forall>c \<in> set h1. counted n c" by simp_all
  show ?thesis
  proof (cases "pingEnabled t1")
    case True
    with run Inr rec have "t' = t1" and h': "h' = pingAll net t1 h1" by (auto simp: scan_def)
    moreover from pingAll_invariant [OF wf1 cells1 bound, of net]
    have "length h' = length h1" and "\<forall>c \<in> set h'. counted (n + 1) c" by (simp_all add: h')
    ultimately show ?thesis using wf1 by (simp add: wellFormed_def)
  next
    case False
    with run Inr rec have "t' = t1" and "h' = h1" by (simp_all add: scan_def)
    with wf1 cells1 show ?thesis by (auto intro: counted_mono)
  qed
qed

lemma cycles_invariant:
  "wellFormed (connections t) h \<Longrightarrow> \<forall>c \<in> set h. counted n c \<Longrightarrow> 0 \<le> n
   \<Longrightarrow> n + int (length ticks) < 2 ^ 63
   \<Longrightarrow> fold scanCycle ticks (t, h) = (t', h')
   \<Longrightarrow> wellFormed (connections t') h' \<and> (\<forall>c \<in> set h'. counted (n + int (length ticks)) c)"
proof (induction ticks arbitrary: t h n)
  case Nil
  then show ?case by simp
next
  case (Cons cy ticks)
  obtain now world net where cy: "cy = (now, world, net)" by (cases cy)
  obtain t1 h1 where step: "scan now (discover world) net t h = (t1, h1)"
    by (cases "scan now (discover world) net t h")
  from Cons.prems(4) have bound: "n + 1 < 2 ^ 63" by simp
  from scan_invariant [OF Cons.prems(1,2,3) bound step]
  have wf1: "wellFormed (connections t1) h1" and cells1: "\<forall>c \<in> set h1. counted (n + 1) c"
    by simp_all
  have "scanCycle cy (t, h) = (t1, h1)" by (simp add: scanCycle_def cy step)
  with Cons.prems(5) have run: "fold scanCycle ticks (t1, h1) = (t', h')" by simp
  from Cons.prems(3,4) have "0 \<le> n + 1" and "n + 1 + int (length ticks) < 2 ^ 63" by simp_all
  from Cons.IH [OF wf1 cells1 this run]
  have "wellFormed (connections t') h'" and "\<forall>c \<in> set h'. counted (n + 1 + int (length ticks)) c"
    by simp_all
  moreover have "n + 1 + int (length ticks) = n + int (length (cy # ticks))" by simp
  ultimately show ?case by simp
qed

lemma Start_invariant:
  assumes "Start first ticks (NewTracker ivl ping) [] = (t, h)"
    and "int (length ticks) + 1 < 2 ^ 63"
  shows "wellFormed (connections t) h \<and> (\<forall>c \<in> set h. counted (int (length ticks) + 1) c)"
proof -
  have wf0: "wellFormed (connections (NewTracker ivl ping)) []"
    by (simp add: wellFormed_def NewTracker_def)
  have cells0: "\<forall>c \<in> set ([] :: heap). counted 0 c" by simp
  from assms(1) have "fold scanCycle (first # ticks) (NewTracker ivl ping, []) = (t, h)"
    by (simp add: Start_def)
  from cycles_invariant [OF wf0 cells0 _ _ this] assms(2)
  show ?thesis by (simp add: add.commute)
qed

text \<open>
  C10. In a run of the engine from \<open>NewTracker\<close>, of fewer than \<open>2 ^ 63 - 1\<close> scan
  cycles (a Go \<open>int\<close> has 64 bits, and a record is probed at most once per cycle),
  every record of the store has a failure count between 0 and its attempt count. A
  write-back to it adds exactly one to the attempt count and one to the failure count
  when the loss is at least 100 and nothing otherwise, and keeps the failure count at
  most the attempt count. A record a scanner discovers is stored with both counts 0.
\<close>

theorem probe_failures_at_most_attempts:
  assumes run: "Start first ticks (NewTracker ivl ping) [] = (t, h)"
    and bound: "int (length ticks) + 2 < 2 ^ 63"
    and conn: "conn \<in> set h"
    and disc: "discover world = Inr scanned"
  shows "0 \<le> PingFailed conn \<and> PingFailed conn \<le> PingCount conn
       \<and> PingCount (writeBack rtt loss conn) = PingCount conn + 1
       \<and> PingFailed (writeBack rtt loss conn) = (if loss \<ge> 100 then PingFailed conn + 1 else PingFailed conn)
       \<and> PingFailed (writeBack rtt loss conn) \<le> PingCount (writeBack rtt loss conn)
       \<and> (\<forall>sc \<in> set scanned. PingCount (newConnection now sc) = 0 \<and> PingFailed (newConnection now sc) = 0)"
proof -
  from bound have "int (length ticks) + 1 < 2 ^ 63" by simp
  from Start_invariant [OF run this] conn
  have c: "counted (int (length ticks) + 1) conn" by simp
  from bound have b: "int (length ticks) + 1 + 1 < 2 ^ 63" by simp
  note wb = writeBack_counts [OF c b, of rtt loss]
  have "\<forall>sc \<in> set scanned. PingCount (newConnection now sc) = 0 \<and> PingFailed (newConnection now sc) = 0"
    using discover_fresh [OF disc] by (simp add: newConnection_counts)
  with c wb show ?thesis by (auto simp: counted_def)
qed

theorem probe_failures_at_most_attempts_witness:
  "Start (demoCycle 1 [demoEntry ''777'' 40000 1000 64] accepting)
       [demoCycle 2 [demoEntry ''777'' 40000 1500 100] refusing]
       (NewTracker 3000000000 True) [] = demoProbed
   \<and> map (\<lambda>c. (PingCount c, PingFailed c)) (snd demoProbed) = [(2, 1)]
   \<and> PingCount (writeBack 0 100 (snd demoProbed ! 0)) = 3
   \<and> PingFailed (writeBack 0 100 (snd demoProbed ! 0)) = 2
   \<and> PingFailed (writeBack 20000000 0 (snd demoProbed ! 0)) = 1
   \<and> map (\<lambda>sc. (PingCount (newConnection 5 sc), PingFailed (newConnection 5 sc)))
         (projr (discover (demoWorld 1 [demoEntry ''777'' 40000 1000 64]))) = [(0, 0)]"
proof -
  let ?c1 = "demoCycle 1 [demoEntry ''777'' 40000 1000 64] accepting"
  let ?c2 = "demoCycle 2 [demoEntry ''777'' 40000 1500 100] refusing"
  let ?world = "demoWorld 1 [demoEntry ''777'' 40000 1000 64]"
  let ?conn = "snd demoProbed ! 0"
  have run: "Start ?c1 [?c2] (NewTracker 3000000000 True) [] = (fst demoProbed, snd demoProbed)"
    by (simp add: demoProbed_def demoTracker_def)
  have bound: "int (length [?c2]) + 2 < 2 ^ 63" by simp
  have conn: "?conn \<in> set (snd demoProbed)" by (simp add: demoProbed_eq)
  have disc: "discover ?world = Inr (projr (discover ?world))" by (simp add: demo_defs)
  have counts: "PingCount ?conn = 2" "PingFailed ?conn = 1"
    by (simp_all add: demoProbed_eq zeroConnection_def)
  have one: "length (projr (discover ?world)) = 1" by (simp add: demo_defs)
  note inst = probe_failures_at_most_attempts [OF run bound conn disc]
  from inst [of 0 100 5] counts
  have "PingCount (writeBack 0 100 ?conn) = 3" and "PingFailed (writeBack 0 100 ?conn) = 2"
    and new: "\<forall>sc \<in> set (projr (discover ?world)).
                PingCount (newConnection 5 sc) = 0 \<and> PingFailed (newConnection 5 sc) = 0"
    by simp_all
  moreover from inst [of 20000000 0 5] counts
  have "PingFailed (writeBack 20000000 0 ?conn) = 1" by simp
  moreover from new one
  have "map (\<lambda>sc. (PingCount (newConnection 5 sc), PingFailed (newConnection 5 sc)))
          (projr (discover ?world)) = [(0, 0)]"
    by (cases "projr (discover ?world)") auto
  moreover have "map (\<lambda>c. (PingCount c, PingFailed c)) (snd demoProbed) = [(2, 1)]"
    by (simp add: demoProbed_eq zeroConnection_def)
  ultimately show ?thesis using run by simp
qed

end
